theory Spec2Isabelle
  imports Main "HOL-Library.Word" "HOL-Library.AList"
begin

unbundle bit_operations_syntax

section \<open>The storage dump decoder (crates/demo-esp32-s3/storage-dump.py)\<close>

text \<open>
  The script reads a whole dump into the byte string \<open>b\<close> and decodes it with a
  cursor object. A Python byte is an integer in 0..255 (\<open>8 word\<close>); every other
  integer of the script is a position, a length or a decoded unsigned value and never
  negative (\<open>nat\<close>, unbounded like Python's integers).

  An exception is a value of \<open>error\<close>. A method of the cursor mutates the cursor and
  either returns or raises; the mutation survives the exception, so a method is a function
  from the cursor to the outcome and the cursor afterwards.
\<close>

type_synonym byte = "8 word"

datatype error =
    IndexError                   \<comment> \<open>\<open>self.b[self.c]\<close> with the index out of range\<close>
  | StructError                  \<comment> \<open>\<open>struct.error\<close>: the buffer has not the size of the format\<close>
  | BadHeaderMagic               \<comment> \<open>\<open>Exception('bad header magic')\<close>\<close>
  | BadSegmentHeaderMagic nat    \<comment> \<open>\<open>Exception\<close> of \<open>bad segment header magic\<close>, with \<open>self.offset\<close>\<close>
  | TooManyItemsInPrior          \<comment> \<open>\<open>Exception('too many items in prior')\<close>\<close>
  | AttributeError string        \<comment> \<open>the object has no attribute of this name\<close>
  | TypeError                    \<comment> \<open>\<open>'NoneType' object is not subscriptable\<close>\<close>
  | ZeroDivisionError            \<comment> \<open>\<open>%\<close> by zero\<close>
  | ValueError                   \<comment> \<open>an integer too long to be written in decimal\<close>

definition DATA_OFFSET :: nat where
  "DATA_OFFSET = 4096"

definition STORAGE_HEADER_MAGIC :: "byte list" where
  "STORAGE_HEADER_MAGIC = [0x1C, 0x53, 0x4F, 0x00]"

definition SEGMENT_HEADER_MAGIC :: "byte list" where
  "SEGMENT_HEADER_MAGIC = [0x1E, 0x53, 0x4F, 0x00]"

subsection \<open>Integers in printed text\<close>

text \<open>
  An f-string that holds an integer writes it in decimal. CPython (3.11 on, and the
  later releases of 3.7 to 3.10) refuses that with \<open>ValueError\<close> when the integer has
  more than \<open>sys.get_int_max_str_digits()\<close> digits, 4300 unless the interpreter is told
  otherwise. The script formats integers in its messages and its prints; the text
  itself is left out of the model, the refusal is not.
\<close>

definition int_max_str_digits :: nat where
  "int_max_str_digits = 4300"

definition int_str_fits :: "nat \<Rightarrow> bool" where
  "int_str_fits n \<longleftrightarrow> n < 10 ^ int_max_str_digits"

subsection \<open>class Cursor\<close>

text \<open>The fields \<open>self.b\<close>, \<open>self.c\<close> and \<open>self.rkyv\<close>.\<close>

record cursor =
  cur_b :: "byte list"
  cur_c :: nat
  cur_rkyv :: bool

type_synonym 'a dec = "cursor \<Rightarrow> (error + 'a) \<times> cursor"

definition ret :: "'a \<Rightarrow> 'a dec" where
  "ret x c = (Inr x, c)"

definition raise :: "error \<Rightarrow> 'a dec" where
  "raise e c = (Inl e, c)"

text \<open>Sequencing of two statements: the second runs only if the first did not raise.\<close>

definition bnd :: "'a dec \<Rightarrow> ('a \<Rightarrow> 'b dec) \<Rightarrow> 'b dec" where
  "bnd m f c = (case m c of (Inl e, c') \<Rightarrow> (Inl e, c') | (Inr x, c') \<Rightarrow> f x c')"

definition Cursor :: "byte list \<Rightarrow> bool \<Rightarrow> cursor" where
  "Cursor b rkyv = \<lparr>cur_b = b, cur_c = 0, cur_rkyv = rkyv\<rparr>"

definition align :: "nat \<Rightarrow> unit dec" where
  "align to c =
     (if to = 0 then (Inl ZeroDivisionError, c)
      else if cur_c c mod to \<noteq> 0
        then (Inr (), c\<lparr>cur_c := cur_c c + (to - cur_c c mod to)\<rparr>)
        else (Inr (), c))"

definition get_u8 :: "byte dec" where
  "get_u8 c =
     (if cur_c c < length (cur_b c)
      then (Inr (cur_b c ! cur_c c), c\<lparr>cur_c := cur_c c + 1\<rparr>)
      else (Inl IndexError, c))"

definition get_bool :: "bool dec" where
  "get_bool = bnd get_u8 (\<lambda>v. ret (v \<noteq> 0))"

text \<open>A slice \<open>self.b[self.c:self.c + n]\<close> never raises: it stops at the end of the buffer.\<close>

definition peek_bytes :: "nat \<Rightarrow> cursor \<Rightarrow> byte list" where
  "peek_bytes n c = take n (drop (cur_c c) (cur_b c))"

definition get_bytes :: "nat \<Rightarrow> byte list dec" where
  "get_bytes n c = (Inr (peek_bytes n c), c\<lparr>cur_c := cur_c c + n\<rparr>)"

text \<open>The value of a byte string read as a little-endian unsigned integer.\<close>

fun le_value :: "byte list \<Rightarrow> nat" where
  "le_value [] = 0"
| "le_value (x # xs) = unat x + 256 * le_value xs"

text \<open>\<open>struct.unpack('<H', b)[0]\<close> and \<open>struct.unpack('<I', b)[0]\<close>: the buffer must have
  the size of the format.\<close>

definition unpack_le :: "nat \<Rightarrow> byte list \<Rightarrow> error + nat" where
  "unpack_le n bs = (if length bs = n then Inr (le_value bs) else Inl StructError)"

definition lift :: "error + 'a \<Rightarrow> 'a dec" where
  "lift r c = (r, c)"

definition get_u16 :: "nat dec" where
  "get_u16 =
     bnd (\<lambda>c. if cur_rkyv c then align 4 c else ret () c)
         (\<lambda>_. bnd (get_bytes 2) (\<lambda>bs. lift (unpack_le 2 bs)))"

definition get_u32 :: "nat dec" where
  "get_u32 =
     bnd (\<lambda>c. if cur_rkyv c then align 4 c else ret () c)
         (\<lambda>_. bnd (get_bytes 4) (\<lambda>bs. lift (unpack_le 4 bs)))"

definition get_option :: "'a dec \<Rightarrow> 'a option dec" where
  "get_option subtype_decoder =
     bnd get_bool (\<lambda>exists.
       if exists then bnd subtype_decoder (\<lambda>v. ret (Some v)) else ret None)"

text \<open>
  \<open>get_leb\<close>: the while loop collects the low seven bits of every byte that has the
  high bit set, reading on until a byte has it clear; \<open>leb_loop vl b\<close> is the loop
  entered with the list \<open>vl\<close> and the byte \<open>b\<close> just read, and returns the list with
  the last byte appended. The for loop then folds the reversed list.
\<close>

function leb_loop :: "nat list \<Rightarrow> byte \<Rightarrow> nat list dec" where
  "leb_loop vl b c =
     (if b AND 0x80 \<noteq> 0
      then (case get_u8 c of
              (Inl e, c') \<Rightarrow> (Inl e, c')
            | (Inr b', c') \<Rightarrow> leb_loop (vl @ [unat (b AND 0x7F)]) b' c')
      else (Inr (vl @ [unat b]), c))"
  by pat_completeness auto
termination
  by (relation "measure (\<lambda>(vl, b, c). length (cur_b c) - cur_c c)")
     (auto simp: get_u8_def split: if_splits)

declare leb_loop.simps [simp del]

definition leb_fold :: "nat list \<Rightarrow> nat" where
  "leb_fold vl = fold (\<lambda>vv v. push_bit 7 v OR vv) (rev vl) 0"

definition get_leb :: "nat dec" where
  "get_leb = bnd get_u8 (\<lambda>b. bnd (leb_loop [] b) (\<lambda>vl. ret (leb_fold vl)))"


text \<open>
  The loop \<open>for i in range(0, n): values.append(subtype_decoder(c))\<close> of
  \<open>Prior.__init__\<close> and of \<open>get_array\<close>, entered with the list \<open>values\<close>.
\<close>

primrec for_range :: "nat \<Rightarrow> 'a dec \<Rightarrow> 'a list \<Rightarrow> 'a list dec" where
  "for_range 0 subtype_decoder values = ret values"
| "for_range (Suc n) subtype_decoder values =
     bnd subtype_decoder (\<lambda>v. for_range n subtype_decoder (values @ [v]))"

text \<open>
  \<open>Prior.__init__\<close>; a \<open>Prior\<close> object is its list \<open>values\<close>. The first \<open>print\<close>
  formats \<open>tag\<close> before \<open>tag\<close> is tested, and eight bytes it peeks at, which leaves the
  cursor alone; the \<open>print\<close> in the loop formats \<open>i\<close>, which is 0 or 1.
\<close>

definition Prior :: "'a dec \<Rightarrow> 'a list dec" where
  "Prior subtype_decoder =
     bnd get_leb (\<lambda>tag.
       if \<not> int_str_fits tag then raise ValueError
       else if tag > 2 then raise TooManyItemsInPrior
       else for_range tag subtype_decoder [])"

definition get_prior :: "'a dec \<Rightarrow> 'a list dec" where
  "get_prior subtype_decoder = Prior subtype_decoder"

definition get_byte_array :: "byte list dec" where
  "get_byte_array = bnd get_leb (\<lambda>l. get_bytes l)"

definition get_array :: "'a dec \<Rightarrow> 'a list dec" where
  "get_array subtype_decoder = bnd get_leb (\<lambda>l. for_range l subtype_decoder [])"

text \<open>
  \<open>CommandData.__init__\<close> calls \<open>c.get_string()\<close>, and class \<open>Cursor\<close> defines no
  method of that name: looking the attribute up raises \<open>AttributeError\<close>.
\<close>

definition get_string :: "string dec" where
  "get_string = raise (AttributeError ''get_string'')"

subsection \<open>class Header\<close>

record header =
  hdr_epoch :: nat
  hdr_graph_id :: "byte list option"
  hdr_head :: "(nat \<times> nat) option"
  hdr_stored_bytes :: nat

text \<open>\<open>Header.__init__\<close>, with the cursor as the constructor leaves it.\<close>

definition Header :: "byte list \<Rightarrow> (error + header) \<times> cursor" where
  "Header b =
     bnd (get_bytes 4) (\<lambda>magic.
       if magic \<noteq> STORAGE_HEADER_MAGIC then raise BadHeaderMagic
       else
         bnd get_u32 (\<lambda>epoch.
         bnd (get_option (get_bytes 32)) (\<lambda>graph_id.
         bnd (align 4) (\<lambda>_.
         bnd (get_option (bnd get_u32 (\<lambda>h0. bnd get_u32 (\<lambda>h1. ret (h0, h1))))) (\<lambda>head.
         bnd get_u32 (\<lambda>stored_bytes.
         ret \<lparr>hdr_epoch = epoch, hdr_graph_id = graph_id, hdr_head = head,
              hdr_stored_bytes = stored_bytes\<rparr>))))))
     (Cursor b True)"

subsection \<open>Locations, addresses and commands\<close>

definition decode_location :: "(nat \<times> nat) dec" where
  "decode_location = bnd get_leb (\<lambda>l1. bnd get_leb (\<lambda>l2. ret (l1, l2)))"

definition decode_address :: "(byte list \<times> nat) dec" where
  "decode_address = bnd (get_bytes 32) (\<lambda>l1. bnd get_leb (\<lambda>l2. ret (l1, l2)))"

record command_data =
  cmd_id :: "byte list"
  cmd_priority :: nat
  cmd_priority_value :: "nat option"
  cmd_policy :: "byte list option"
  cmd_data :: "byte list"
  cmd_updates :: "(string \<times> byte list list \<times> byte list option) list"

text \<open>The decoder of one record of \<open>updates\<close>: the lambda of \<open>CommandData.__init__\<close>,
  its tuple evaluated from left to right.\<close>

definition decode_update :: "(string \<times> byte list list \<times> byte list option) dec" where
  "decode_update =
     bnd get_string (\<lambda>name.
     bnd (get_array get_byte_array) (\<lambda>vals.
     bnd (get_option get_byte_array) (\<lambda>delta.
     ret (name, vals, delta))))"

definition CommandData :: "command_data dec" where
  "CommandData =
     bnd (get_bytes 32) (\<lambda>ident.
     bnd get_leb (\<lambda>priority.
     bnd (if priority = 1 then bnd get_leb (\<lambda>v. ret (Some v)) else ret None) (\<lambda>priority_value.
     bnd (get_option get_byte_array) (\<lambda>policy.
     bnd get_byte_array (\<lambda>data.
     bnd (get_array decode_update) (\<lambda>updates.
     ret \<lparr>cmd_id = ident, cmd_priority = priority, cmd_priority_value = priority_value,
          cmd_policy = policy, cmd_data = data, cmd_updates = updates\<rparr>))))))"

subsection \<open>class Segment\<close>

text \<open>
  The attributes a \<open>Segment\<close> object keeps. \<open>decode_data\<close> reads \<open>offset\<close>,
  \<open>commands\<close>, \<open>max_cut\<close> and \<open>skip_list\<close> into local variables and drops them.
  \<open>seg_type\<close> is \<open>None\<close> where no branch of the \<open>if\<close> chain assigns \<open>self.type\<close>.
\<close>

record segment =
  seg_offset :: nat
  seg_size :: nat
  seg_data :: "byte list"
  seg_prior :: "(nat \<times> nat) list"
  seg_parents :: "(byte list \<times> nat) list"
  seg_policy :: "byte list"
  seg_facts :: nat
  seg_type :: "string option"

definition decode_skip :: "((nat \<times> nat) \<times> nat) dec" where
  "decode_skip = bnd get_leb (\<lambda>u. bnd get_leb (\<lambda>v. bnd get_leb (\<lambda>w. ret ((u, v), w))))"

definition decode_data :: "nat \<Rightarrow> nat \<Rightarrow> byte list \<Rightarrow> error + segment" where
  "decode_data self_offset self_size self_data =
     fst (bnd get_leb (\<lambda>offset.
          bnd (get_prior decode_location) (\<lambda>prior.
          bnd (get_prior decode_address) (\<lambda>parents.
          bnd (get_bytes 32) (\<lambda>policy.
          bnd get_leb (\<lambda>facts.
          bnd (get_array CommandData) (\<lambda>commands.
          bnd get_leb (\<lambda>max_cut.
          bnd (get_array decode_skip) (\<lambda>skip_list.
          ret \<lparr>seg_offset = self_offset, seg_size = self_size, seg_data = self_data,
               seg_prior = prior, seg_parents = parents, seg_policy = policy,
               seg_facts = facts,
               seg_type =
                 (if length parents = 0 then Some ''init''
                  else if length parents = 1 then Some ''basic''
                  else if length parents = 2 then Some ''merge''
                  else None)\<rparr>))))))))
          (Cursor self_data False))"

text \<open>\<open>struct.unpack_from('<I', b, offset)\<close>: four bytes must be there from \<open>offset\<close> on.\<close>

definition unpack_from_le :: "nat \<Rightarrow> byte list \<Rightarrow> nat \<Rightarrow> error + nat" where
  "unpack_from_le n b offset =
     (if offset + n \<le> length b then Inr (le_value (take n (drop offset b)))
      else Inl StructError)"

text \<open>\<open>Segment.read\<close> on the dump \<open>b\<close>, a global of the script. The message of the
  exception holds \<open>self.offset\<close>, formatted before the exception is raised.\<close>

definition Segment_read :: "byte list \<Rightarrow> nat \<Rightarrow> error + segment" where
  "Segment_read b offset =
     (if take 4 (drop (offset + DATA_OFFSET) b) \<noteq> SEGMENT_HEADER_MAGIC
      then (if int_str_fits offset then Inl (BadSegmentHeaderMagic offset) else Inl ValueError)
      else case unpack_from_le 4 b (offset + DATA_OFFSET + 4) of
             Inl e \<Rightarrow> Inl e
           | Inr sz \<Rightarrow>
               decode_data offset sz (take sz (drop (offset + DATA_OFFSET + 8) b)))"

definition Segment :: "byte list \<Rightarrow> nat \<Rightarrow> error + segment" where
  "Segment b offset = Segment_read b offset"

text \<open>
  \<open>Segment.__str__\<close> formats \<open>offset\<close>, \<open>size\<close>, the pairs of \<open>prior\<close> and the pairs
  of \<open>parents\<close>, whose first components are byte strings: \<open>print(seg)\<close> raises
  \<open>ValueError\<close> unless all these integers can be written.
\<close>

definition Segment_str_fits :: "segment \<Rightarrow> bool" where
  "Segment_str_fits seg \<longleftrightarrow>
     int_str_fits (seg_offset seg) \<and> int_str_fits (seg_size seg)
     \<and> list_all (\<lambda>p. int_str_fits (fst p) \<and> int_str_fits (snd p)) (seg_prior seg)
     \<and> list_all (\<lambda>p. int_str_fits (snd p)) (seg_parents seg)"

subsection \<open>The walk and the export\<close>

text \<open>
  The dictionary \<open>segments\<close> keeps the order of insertion, which is the order of the
  export: an association list, \<open>segments[offset] = seg\<close> being \<open>AList.update\<close>.
  \<open>decoded\<close> lists the offsets \<open>Segment(offset)\<close> was called with, in the order of
  the calls.
\<close>

record walk_state =
  segments :: "(nat \<times> segment) list"
  decoded :: "nat list"

text \<open>\<open>for p in seg.prior: walk(p)\<close>, for a \<open>walk\<close> that may be cut off (\<open>None\<close>).\<close>

primrec for_each ::
  "('a \<Rightarrow> 's \<Rightarrow> ((error + unit) \<times> 's) option) \<Rightarrow> 'a list \<Rightarrow> 's \<Rightarrow> ((error + unit) \<times> 's) option"
where
  "for_each walk [] s = Some (Inr (), s)"
| "for_each walk (p # ps) s =
     (case walk p s of
        None \<Rightarrow> None
      | Some (Inl e, s') \<Rightarrow> Some (Inl e, s')
      | Some (Inr _, s') \<Rightarrow> for_each walk ps s')"

text \<open>
  \<open>walk_segment_tree\<close>. The first argument bounds the depth of the recursion, as
  Python's recursion limit does; \<open>None\<close> is a walk the bound cut off. The test
  \<open>seg.prior is None\<close> never holds, \<open>seg.prior\<close> being a \<open>Prior\<close> object.
\<close>

primrec walk_segment_tree ::
  "nat \<Rightarrow> byte list \<Rightarrow> nat \<Rightarrow> walk_state \<Rightarrow> ((error + unit) \<times> walk_state) option"
where
  "walk_segment_tree 0 b offset s = None"
| "walk_segment_tree (Suc n) b offset s =
     (if offset \<in> fst ` set (segments s) then Some (Inr (), s)
      else case Segment b offset of
             Inl e \<Rightarrow> Some (Inl e, s\<lparr>decoded := decoded s @ [offset]\<rparr>)
           | Inr seg \<Rightarrow>
               for_each (\<lambda>p. walk_segment_tree n b (fst p)) (seg_prior seg)
                 (s\<lparr>segments := AList.update offset seg (segments s),
                    decoded := decoded s @ [offset]\<rparr>))"

text \<open>The lines written to \<open>graph.dot\<close>.\<close>

datatype dot_line =
    Digraph_open            \<comment> \<open>\<open>digraph {\<close>\<close>
  | Node_line nat           \<comment> \<open>\<open>segment_N [label="Segment N", shape=rectangle]\<close>\<close>
  | Edge_line nat nat       \<comment> \<open>\<open>segment_N -> segment_M\<close>\<close>
  | Digraph_close           \<comment> \<open>\<open>}\<close>\<close>

definition segment_lines :: "segment \<Rightarrow> dot_line list" where
  "segment_lines s =
     Node_line (seg_offset s) # map (\<lambda>p. Edge_line (seg_offset s) (fst p)) (seg_prior s)"

definition graph_dot :: "(nat \<times> segment) list \<Rightarrow> dot_line list" where
  "graph_dot segs = [Digraph_open] @ concat (map (\<lambda>(k, s). segment_lines s) segs) @ [Digraph_close]"

text \<open>A line is formatted in full before it is written, offsets in decimal.\<close>

fun dot_line_fits :: "dot_line \<Rightarrow> bool" where
  "dot_line_fits (Node_line k) = int_str_fits k"
| "dot_line_fits (Edge_line k j) = (int_str_fits k \<and> int_str_fits j)"
| "dot_line_fits l = True"

text \<open>
  The script from \<open>segments = {}\<close> on: how it ends (\<open>out_error\<close> is the exception
  that stopped it), the state of the walk, and the lines of \<open>graph.dot\<close> if it was
  opened. \<open>print(h)\<close> formats values of 32 bits only and cannot fail; \<open>print(head_seg)\<close>
  can; and the export stops at the first line it cannot format.
\<close>

record outcome =
  out_error :: "error option"
  out_state :: walk_state
  out_dot :: "dot_line list option"

definition main :: "nat \<Rightarrow> byte list \<Rightarrow> outcome option" where
  "main n b =
     (case fst (Header b) of
        Inl e \<Rightarrow>
          Some \<lparr>out_error = Some e, out_state = \<lparr>segments = [], decoded = []\<rparr>, out_dot = None\<rparr>
      | Inr h \<Rightarrow>
          (case hdr_head h of
             None \<Rightarrow>
               Some \<lparr>out_error = Some TypeError, out_state = \<lparr>segments = [], decoded = []\<rparr>,
                     out_dot = None\<rparr>
           | Some head \<Rightarrow>
               (case Segment b (fst head) of
                  Inl e \<Rightarrow>
                    Some \<lparr>out_error = Some e,
                          out_state = \<lparr>segments = [], decoded = [fst head]\<rparr>, out_dot = None\<rparr>
                | Inr head_seg \<Rightarrow>
                    if \<not> Segment_str_fits head_seg
                    then Some \<lparr>out_error = Some ValueError,
                               out_state = \<lparr>segments = [], decoded = [fst head]\<rparr>,
                               out_dot = None\<rparr>
                    else
                    (case walk_segment_tree n b (fst head) \<lparr>segments = [], decoded = [fst head]\<rparr> of
                       None \<Rightarrow> None
                     | Some (Inl e, s) \<Rightarrow>
                         Some \<lparr>out_error = Some e, out_state = s, out_dot = None\<rparr>
                     | Some (Inr _, s) \<Rightarrow>
                         if list_all dot_line_fits (graph_dot (segments s))
                         then Some \<lparr>out_error = None, out_state = s,
                                    out_dot = Some (graph_dot (segments s))\<rparr>
                         else Some \<lparr>out_error = Some ValueError, out_state = s,
                                    out_dot = Some (takeWhile dot_line_fits (graph_dot (segments s)))\<rparr>))))"


subsection \<open>What the specification calls a variable-length integer\<close>

text \<open>
  A valid variable-length integer is a non-empty byte sequence whose last byte, and
  no other, has the high bit clear. Its value takes the low seven bits of each byte,
  the least significant group first.
\<close>

fun leb_valid :: "byte list \<Rightarrow> bool" where
  "leb_valid [] = False"
| "leb_valid [x] = (x AND 0x80 = 0)"
| "leb_valid (x # y # ys) = (x AND 0x80 \<noteq> 0 \<and> leb_valid (y # ys))"

fun leb_value :: "byte list \<Rightarrow> nat" where
  "leb_value [] = 0"
| "leb_value (x # xs) = unat (x AND 0x7F) + 128 * leb_value xs"

subsection \<open>The fields of a command behind its priority\<close>

text \<open>\<open>policy\<close>, \<open>data\<close> and \<open>updates\<close>, as \<open>CommandData.__init__\<close> reads them
  once \<open>id\<close>, \<open>priority\<close> and \<open>priority_value\<close> are known.\<close>

abbreviation (input) command_rest :: "byte list \<Rightarrow> nat \<Rightarrow> nat option \<Rightarrow> command_data dec" where
  "command_rest ident priority priority_value \<equiv>
     bnd (get_option get_byte_array) (\<lambda>policy.
     bnd get_byte_array (\<lambda>data.
     bnd (get_array decode_update) (\<lambda>updates.
     ret \<lparr>cmd_id = ident, cmd_priority = priority, cmd_priority_value = priority_value,
          cmd_policy = policy, cmd_data = data, cmd_updates = updates\<rparr>)))"

subsection \<open>The payload of a segment, after the specification\<close>

text \<open>
  The fields of a payload in the order the specification lists them: \<open>self_offset\<close>
  (a varint), \<open>prior\<close> (a bounded list of locations), \<open>parents\<close> (a bounded list of
  addresses), \<open>policy\<close> (32 bytes), \<open>facts\<close> (a varint), \<open>commands\<close> (an array of
  commands), \<open>max_cut\<close> (a varint) and \<open>skip_list\<close> (an array of varint triples).
\<close>

definition payload_fields ::
  "(nat \<times> (nat \<times> nat) list \<times> (byte list \<times> nat) list \<times> byte list \<times> nat
    \<times> command_data list \<times> nat \<times> ((nat \<times> nat) \<times> nat) list) dec" where
  "payload_fields =
     bnd get_leb (\<lambda>self_offset.
     bnd (get_prior decode_location) (\<lambda>prior.
     bnd (get_prior decode_address) (\<lambda>parents.
     bnd (get_bytes 32) (\<lambda>policy.
     bnd get_leb (\<lambda>facts.
     bnd (get_array CommandData) (\<lambda>commands.
     bnd get_leb (\<lambda>max_cut.
     bnd (get_array decode_skip) (\<lambda>skip_list.
     ret (self_offset, prior, parents, policy, facts, commands, max_cut, skip_list)))))))))"

text \<open>The kind of a segment by the number of its parents: no other count is legal.\<close>

definition segment_kind :: "nat \<Rightarrow> string option" where
  "segment_kind n =
     (if n = 0 then Some ''init'' else if n = 1 then Some ''basic''
      else if n = 2 then Some ''merge'' else None)"

subsection \<open>The fields of the header, after the specification\<close>

text \<open>
  Behind the magic: \<open>epoch\<close> (u32), \<open>graph_id\<close> (optional, 32 bytes), an alignment
  to 4, \<open>head\<close> (an optional pair of u32) and \<open>stored_bytes\<close> (u32).
\<close>

definition header_fields :: "header dec" where
  "header_fields =
     bnd get_u32 (\<lambda>epoch.
     bnd (get_option (get_bytes 32)) (\<lambda>graph_id.
     bnd (align 4) (\<lambda>_.
     bnd (get_option (bnd get_u32 (\<lambda>h0. bnd get_u32 (\<lambda>h1. ret (h0, h1))))) (\<lambda>head.
     bnd get_u32 (\<lambda>stored_bytes.
     ret \<lparr>hdr_epoch = epoch, hdr_graph_id = graph_id, hdr_head = head,
          hdr_stored_bytes = stored_bytes\<rparr>)))))"

subsection \<open>Reachable offsets and the graph a dot file describes\<close>

text \<open>
  An offset \<open>y\<close> is a prior reference of \<open>x\<close> if the segment at \<open>x\<close> decodes and the
  first component of an entry of its prior list is \<open>y\<close>; the offsets reachable from the
  head are those a chain of prior references leads to.
\<close>

definition prior_edge :: "byte list \<Rightarrow> (nat \<times> nat) set" where
  "prior_edge b =
     {(x, y). case Segment b x of Inl e \<Rightarrow> False | Inr seg \<Rightarrow> y \<in> fst ` set (seg_prior seg)}"

definition reachable :: "byte list \<Rightarrow> nat \<Rightarrow> nat set" where
  "reachable b head = {y. (head, y) \<in> (prior_edge b)\<^sup>*}"

text \<open>The nodes and the edges of the exported graph, in the order of its lines.\<close>

fun dot_nodes :: "dot_line list \<Rightarrow> nat list" where
  "dot_nodes [] = []"
| "dot_nodes (Node_line k # ls) = k # dot_nodes ls"
| "dot_nodes (l # ls) = dot_nodes ls"

fun dot_edges :: "dot_line list \<Rightarrow> (nat \<times> nat) list" where
  "dot_edges [] = []"
| "dot_edges (Edge_line k j # ls) = (k, j) # dot_edges ls"
| "dot_edges (l # ls) = dot_edges ls"

text \<open>
  What a walk that returns has done to its state: it appended to \<open>segments\<close> and
  \<open>decoded\<close> the entries \<open>new\<close>, each the decoded segment of an offset reachable from a
  root, with all its prior references in the dictionary; and the roots are in it.
\<close>

definition walk_grows :: "byte list \<Rightarrow> nat set \<Rightarrow> walk_state \<Rightarrow> walk_state \<Rightarrow> bool" where
  "walk_grows b roots s s' \<longleftrightarrow>
     (\<exists>new. segments s' = segments s @ new \<and> decoded s' = decoded s @ map fst new
        \<and> distinct (map fst (segments s'))
        \<and> (\<forall>k seg. (k, seg) \<in> set new \<longrightarrow>
              Segment b k = Inr seg
              \<and> fst ` set (seg_prior seg) \<subseteq> fst ` set (segments s')
              \<and> (\<exists>r \<in> roots. (r, k) \<in> (prior_edge b)\<^sup>*)))
     \<and> roots \<subseteq> fst ` set (segments s')"

subsection \<open>An example dump\<close>

text \<open>
  Four segments behind 4096 bytes of padding, 100 bytes apart: the head at 300 has the
  priors 100 and 200 and two parents; the segments at 100 and 200 have the prior 0; the
  segment at 0 has none.
\<close>

definition diamond_dump :: "byte list" where
  "diamond_dump =
     replicate 4096 0
     @ [0x1E, 0x53, 0x4F, 0x00, 0x27, 0x00, 0x00, 0x00] @ replicate 39 0 @ replicate 53 0
     @ [0x1E, 0x53, 0x4F, 0x00, 0x29, 0x00, 0x00, 0x00] @ [0x00, 0x01, 0x00, 0x00, 0x00]
       @ replicate 36 0 @ replicate 51 0
     @ [0x1E, 0x53, 0x4F, 0x00, 0x29, 0x00, 0x00, 0x00] @ [0x00, 0x01, 0x00, 0x00, 0x00]
       @ replicate 36 0 @ replicate 51 0
     @ [0x1E, 0x53, 0x4F, 0x00, 0x6E, 0x00, 0x00, 0x00]
       @ [0x00, 0x02, 0x64, 0x00, 0xC8, 0x01, 0x00, 0x02]
       @ replicate 32 0x11 @ [0x01] @ replicate 32 0x22 @ [0x02] @ replicate 36 0"

text \<open>The offsets inside the dump that have no entry in \<open>segments\<close> yet.\<close>

definition unvisited :: "byte list \<Rightarrow> walk_state \<Rightarrow> nat" where
  "unvisited b s = card ({..<length b} - fst ` set (segments s))"

subsection \<open>The standard encoding of an unsigned integer\<close>

text \<open>
  The script only decodes. The encoding it is to undo emits seven bits at a time, the
  least significant group first, with the high bit set on every byte but the last.
\<close>

function leb_encode :: "nat \<Rightarrow> byte list" where
  "leb_encode n =
     (if n < 128 then [of_nat n] else of_nat (128 + n mod 128) # leb_encode (n div 128))"
  by pat_completeness auto
termination
  by (relation "measure id") auto

declare leb_encode.simps [simp del]

section \<open>Bytes and seven-bit groups\<close>

lemma byte_and_80_bit7: "(b::byte) AND 0x80 = 0 \<Longrightarrow> \<not> bit b 7"
proof
  assume a: "b AND 0x80 = 0" and b7: "bit b 7"
  have e: "(0x80::byte) = 2 ^ 7" by simp
  have "bit (b AND 2 ^ 7) 7" using b7 by (simp only: bit_and_iff bit_exp_iff) simp
  moreover have "b AND 2 ^ 7 = 0" using a by (simp only: e)
  ultimately show False by (simp only: bit_0_eq) simp
qed

lemma byte_and_7F: "b AND 0x80 = 0 \<Longrightarrow> b AND 0x7F = (b::byte)"
proof -
  assume a: "b AND 0x80 = 0"
  have m: "(0x7F::byte) = mask 7" by (simp add: mask_eq_exp_minus_1)
  have n7: "\<not> bit b 7" using a by (rule byte_and_80_bit7)
  have "b AND mask 7 = b"
  proof (rule bit_word_eqI)
    fix n assume "n < LENGTH(8)"
    then have "n < 7 \<or> n = 7" by auto
    then show "bit (b AND mask 7) n = bit b n" using n7
      by (auto simp: bit_and_iff bit_mask_iff)
  qed
  then show ?thesis by (simp only: m)
qed

lemma byte_and_7F_less: "unat ((b::byte) AND 0x7F) < 128"
proof -
  have "b AND 0x7F \<le> 0x7F" by (rule word_and_le1)
  then have "unat (b AND 0x7F) \<le> unat (0x7F :: byte)" by (simp only: word_le_nat_alt)
  then show ?thesis by simp
qed

lemma shift_or_group: "vv < 128 \<Longrightarrow> push_bit 7 (v::nat) OR vv = 128 * v + vv"
proof -
  assume a: "vv < 128"
  then have t: "take_bit 7 vv = vv" by (simp add: take_bit_eq_mod)
  have "push_bit 7 v AND take_bit 7 vv = 0"
    by (rule bit_eqI) (auto simp: bit_and_iff bit_push_bit_iff bit_take_bit_iff)
  then have "push_bit 7 v + vv = push_bit 7 v OR vv" using t
    by (simp add: disjunctive_add_eq_or)
  then show ?thesis by (simp add: push_bit_eq_mult)
qed

lemma leb_fold_groups: "leb_fold (map (\<lambda>y. unat (y AND 0x7F)) bs) = leb_value bs"
proof -
  have "foldr (\<lambda>vv v. push_bit 7 v OR vv) (map (\<lambda>y. unat (y AND 0x7F)) bs) 0 = leb_value bs"
    by (induction bs) (simp_all add: shift_or_group byte_and_7F_less)
  then show ?thesis by (simp add: leb_fold_def foldr_conv_fold)
qed

lemma take_drop_ConsD:
  assumes "take (Suc n) (drop i xs) = y # ys"
  shows "i < length xs \<and> xs ! i = y \<and> take n (drop (Suc i) xs) = ys"
proof -
  from assms have ne: "drop i xs \<noteq> []" by auto
  then have i: "i < length xs" by simp
  then have "drop i xs = xs ! i # drop (Suc i) xs" by (simp add: Cons_nth_drop_Suc)
  with assms i show ?thesis by simp
qed

section \<open>The varint decoder\<close>

lemma leb_loop_valid:
  "leb_valid (x # xs) \<Longrightarrow> peek_bytes (length xs) c = xs \<Longrightarrow>
   leb_loop vl x c =
     (Inr (vl @ map (\<lambda>y. unat (y AND 0x7F)) (x # xs)), c\<lparr>cur_c := cur_c c + length xs\<rparr>)"
proof (induction xs arbitrary: vl x c)
  case Nil
  then show ?case by (simp add: leb_loop.simps [of vl x c] byte_and_7F)
next
  case (Cons y ys)
  from Cons.prems(2) have t: "take (Suc (length ys)) (drop (cur_c c) (cur_b c)) = y # ys"
    by (simp add: peek_bytes_def)
  note d = take_drop_ConsD [OF t]
  let ?c' = "c\<lparr>cur_c := cur_c c + 1\<rparr>"
  have g: "get_u8 c = (Inr y, ?c')" using d by (simp add: get_u8_def)
  have p: "peek_bytes (length ys) ?c' = ys" using d by (simp add: peek_bytes_def)
  from Cons.prems(1) have hi: "x AND 0x80 \<noteq> 0" and v: "leb_valid (y # ys)" by simp_all
  have "leb_loop vl x c = leb_loop (vl @ [unat (x AND 0x7F)]) y ?c'"
    using hi g by (simp add: leb_loop.simps [of vl x c])
  also have "\<dots> = (Inr ((vl @ [unat (x AND 0x7F)]) @ map (\<lambda>y. unat (y AND 0x7F)) (y # ys)),
                    ?c'\<lparr>cur_c := cur_c ?c' + length ys\<rparr>)"
    by (rule Cons.IH [OF v p])
  finally show ?case by simp
qed

lemma get_leb_valid:
  assumes "leb_valid bs" "peek_bytes (length bs) c = bs"
  shows "get_leb c = (Inr (leb_value bs), c\<lparr>cur_c := cur_c c + length bs\<rparr>)"
proof -
  from assms(1) obtain x xs where bs: "bs = x # xs" by (cases bs) auto
  from assms(2) bs have t: "take (Suc (length xs)) (drop (cur_c c) (cur_b c)) = x # xs"
    by (simp add: peek_bytes_def)
  note d = take_drop_ConsD [OF t]
  let ?c' = "c\<lparr>cur_c := cur_c c + 1\<rparr>"
  have g: "get_u8 c = (Inr x, ?c')" using d by (simp add: get_u8_def)
  have p: "peek_bytes (length xs) ?c' = xs" using d by (simp add: peek_bytes_def)
  have l: "leb_loop [] x ?c' = (Inr (map (\<lambda>y. unat (y AND 0x7F)) (x # xs)),
                                ?c'\<lparr>cur_c := cur_c ?c' + length xs\<rparr>)"
    using leb_loop_valid [OF assms(1) [unfolded bs] p, of "[]"] by simp
  show ?thesis
    using l by (simp add: get_leb_def bnd_def g ret_def leb_fold_groups bs
        del: leb_value.simps list.map)
qed

text \<open>
  Claim C1. Whenever the bytes at the cursor are a valid variable-length integer \<open>bs\<close>
  (whatever follows them), \<open>get_leb\<close> returns the value of \<open>bs\<close>, low group first, and
  leaves the cursor just behind \<open>bs\<close>. So \<open>00\<close> decodes to 0, \<open>7F\<close> to 127, \<open>80 01\<close>
  to 128 and \<open>96 01\<close> to 150, each read in full.
\<close>

theorem get_leb_decodes_leb128:
  "(leb_valid bs \<and> peek_bytes (length bs) c = bs \<longrightarrow>
      get_leb c = (Inr (leb_value bs), c\<lparr>cur_c := cur_c c + length bs\<rparr>))
   \<and> get_leb (Cursor [0x00] r) = (Inr 0, (Cursor [0x00] r)\<lparr>cur_c := 1\<rparr>)
   \<and> get_leb (Cursor [0x7F] r) = (Inr 127, (Cursor [0x7F] r)\<lparr>cur_c := 1\<rparr>)
   \<and> get_leb (Cursor [0x80, 0x01] r) = (Inr 128, (Cursor [0x80, 0x01] r)\<lparr>cur_c := 2\<rparr>)
   \<and> get_leb (Cursor [0x96, 0x01] r) = (Inr 150, (Cursor [0x96, 0x01] r)\<lparr>cur_c := 2\<rparr>)"
proof -
  have e0: "get_leb (Cursor [0x00] r) = (Inr 0, (Cursor [0x00] r)\<lparr>cur_c := 1\<rparr>)"
    using get_leb_valid [of "[0x00]" "Cursor [0x00] r"] by (simp add: peek_bytes_def Cursor_def)
  have e1: "get_leb (Cursor [0x7F] r) = (Inr 127, (Cursor [0x7F] r)\<lparr>cur_c := 1\<rparr>)"
    using get_leb_valid [of "[0x7F]" "Cursor [0x7F] r"] by (simp add: peek_bytes_def Cursor_def)
  have e2: "get_leb (Cursor [0x80, 0x01] r) = (Inr 128, (Cursor [0x80, 0x01] r)\<lparr>cur_c := 2\<rparr>)"
    using get_leb_valid [of "[0x80, 0x01]" "Cursor [0x80, 0x01] r"]
    by (simp add: peek_bytes_def Cursor_def)
  have e3: "get_leb (Cursor [0x96, 0x01] r) = (Inr 150, (Cursor [0x96, 0x01] r)\<lparr>cur_c := 2\<rparr>)"
    using get_leb_valid [of "[0x96, 0x01]" "Cursor [0x96, 0x01] r"]
    by (simp add: peek_bytes_def Cursor_def)
  show ?thesis using get_leb_valid [of bs c] e0 e1 e2 e3 by blast
qed

theorem get_leb_decodes_leb128_witness:
  "leb_valid [0xE5, 0x8E, 0x26]
   \<and> peek_bytes 3 \<lparr>cur_b = [0xFF, 0xE5, 0x8E, 0x26, 0x07], cur_c = 1, cur_rkyv = False\<rparr>
       = [0xE5, 0x8E, 0x26]
   \<and> get_leb \<lparr>cur_b = [0xFF, 0xE5, 0x8E, 0x26, 0x07], cur_c = 1, cur_rkyv = False\<rparr>
       = (Inr 624485, \<lparr>cur_b = [0xFF, 0xE5, 0x8E, 0x26, 0x07], cur_c = 4, cur_rkyv = False\<rparr>)"
  using get_leb_decodes_leb128
    [of "[0xE5, 0x8E, 0x26]"
        "\<lparr>cur_b = [0xFF, 0xE5, 0x8E, 0x26, 0x07], cur_c = 1, cur_rkyv = False\<rparr>"]
  by (simp add: peek_bytes_def)

section \<open>Sequencing\<close>

lemma bnd_Inl: "m c = (Inl e, c') \<Longrightarrow> bnd m f c = (Inl e, c')"
  by (simp add: bnd_def)

lemma bnd_Inr: "m c = (Inr x, c') \<Longrightarrow> bnd m f c = f x c'"
  by (simp add: bnd_def)

lemma bnd_eq_Inr:
  "bnd m f c = (Inr y, c'') \<longleftrightarrow> (\<exists>x c'. m c = (Inr x, c') \<and> f x c' = (Inr y, c''))"
  by (auto simp: bnd_def split: prod.splits sum.splits)

lemma get_u8_peek: "peek_bytes 1 c = [x] \<Longrightarrow> get_u8 c = (Inr x, c\<lparr>cur_c := cur_c c + 1\<rparr>)"
  using take_drop_ConsD [of 0 "cur_c c" "cur_b c" x "[]"]
  by (simp add: peek_bytes_def get_u8_def)

section \<open>Integers that can be printed\<close>

lemma int_str_fits_small: "n < 10 ^ 9 \<Longrightarrow> int_str_fits n"
proof -
  assume a: "n < 10 ^ 9"
  have "9 \<le> int_max_str_digits" by (simp add: int_max_str_digits_def)
  then have "(10::nat) ^ 9 \<le> 10 ^ int_max_str_digits" by (rule power_increasing) simp
  with a show ?thesis unfolding int_str_fits_def by (rule less_le_trans)
qed








section \<open>Bounded lists\<close>





section \<open>Reads at the end of the buffer\<close>

lemma get_u_past_end:
  assumes "length (cur_b c) <
      (if cur_rkyv c \<and> cur_c c mod 4 \<noteq> 0 then cur_c c + (4 - cur_c c mod 4) else cur_c c) + n"
    and "0 < n"
  shows "fst (bnd (\<lambda>c. if cur_rkyv c then align 4 c else ret () c)
         (\<lambda>_. bnd (get_bytes n) (\<lambda>bs. lift (unpack_le n bs))) c) = Inl StructError"
  using assms
  by (auto simp: bnd_def align_def ret_def get_bytes_def peek_bytes_def lift_def unpack_le_def
      split: if_splits)

text \<open>
  Claim C3, amended. \<open>get_u8\<close> at or behind the end of the buffer raises
  \<open>IndexError\<close> and leaves the cursor in place. \<open>get_u16\<close> and \<open>get_u32\<close> raise
  \<open>struct.error\<close> when fewer than 2 or 4 bytes are left from where the read starts (the
  next multiple of 4 in word-aligned mode). \<open>get_bytes\<close> never raises: it returns the
  bytes that are left, at most \<open>n\<close> of them, and moves the cursor by \<open>n\<close>; so does
  \<open>get_byte_array\<close> once its length is read.
\<close>

theorem cursor_reads_past_end:
  "(length (cur_b c) < cur_c c + 1 \<longrightarrow> get_u8 c = (Inl IndexError, c))
   \<and> (length (cur_b c) <
        (if cur_rkyv c \<and> cur_c c mod 4 \<noteq> 0 then cur_c c + (4 - cur_c c mod 4) else cur_c c) + 2
      \<longrightarrow> fst (get_u16 c) = Inl StructError)
   \<and> (length (cur_b c) <
        (if cur_rkyv c \<and> cur_c c mod 4 \<noteq> 0 then cur_c c + (4 - cur_c c mod 4) else cur_c c) + 4
      \<longrightarrow> fst (get_u32 c) = Inl StructError)
   \<and> get_bytes n c = (Inr (take n (drop (cur_c c) (cur_b c))), c\<lparr>cur_c := cur_c c + n\<rparr>)
   \<and> (get_leb c = (Inr l, c') \<longrightarrow>
        get_byte_array c = (Inr (take l (drop (cur_c c') (cur_b c'))), c'\<lparr>cur_c := cur_c c' + l\<rparr>))"
proof (intro conjI impI)
  assume "length (cur_b c) < cur_c c + 1"
  then show "get_u8 c = (Inl IndexError, c)" by (simp add: get_u8_def)
next
  assume "length (cur_b c) <
        (if cur_rkyv c \<and> cur_c c mod 4 \<noteq> 0 then cur_c c + (4 - cur_c c mod 4) else cur_c c) + 2"
  then show "fst (get_u16 c) = Inl StructError"
    unfolding get_u16_def by (rule get_u_past_end) simp
next
  assume "length (cur_b c) <
        (if cur_rkyv c \<and> cur_c c mod 4 \<noteq> 0 then cur_c c + (4 - cur_c c mod 4) else cur_c c) + 4"
  then show "fst (get_u32 c) = Inl StructError"
    unfolding get_u32_def by (rule get_u_past_end) simp
next
  show "get_bytes n c = (Inr (take n (drop (cur_c c) (cur_b c))), c\<lparr>cur_c := cur_c c + n\<rparr>)"
    by (simp add: get_bytes_def peek_bytes_def)
next
  assume "get_leb c = (Inr l, c')"
  then show "get_byte_array c = (Inr (take l (drop (cur_c c') (cur_b c'))), c'\<lparr>cur_c := cur_c c' + l\<rparr>)"
    by (simp add: get_byte_array_def bnd_def get_bytes_def peek_bytes_def)
qed

text \<open>Four bytes asked of a buffer of two, and three of a buffer that has one left.\<close>

lemma get_leb_03: "get_leb (Cursor [0x03, 0x2A] False) = (Inr 3, \<lparr>cur_b = [0x03, 0x2A], cur_c = 1, cur_rkyv = False\<rparr>)"
  by (simp add: get_leb_def bnd_def get_u8_def Cursor_def leb_loop.simps ret_def leb_fold_def)

theorem cursor_reads_past_end_counterexample:
  "get_bytes 4 (Cursor [0x01, 0x02] False)
     = (Inr [0x01, 0x02], \<lparr>cur_b = [0x01, 0x02], cur_c = 4, cur_rkyv = False\<rparr>)
   \<and> get_byte_array (Cursor [0x03, 0x2A] False)
     = (Inr [0x2A], \<lparr>cur_b = [0x03, 0x2A], cur_c = 4, cur_rkyv = False\<rparr>)"
  by (simp add: get_bytes_def peek_bytes_def Cursor_def get_byte_array_def bnd_def
      get_leb_03 [unfolded Cursor_def])

theorem cursor_reads_past_end_witness:
  "get_u8 \<lparr>cur_b = [0x01, 0x02], cur_c = 2, cur_rkyv = False\<rparr>
     = (Inl IndexError, \<lparr>cur_b = [0x01, 0x02], cur_c = 2, cur_rkyv = False\<rparr>)
   \<and> fst (get_u16 \<lparr>cur_b = [0x01, 0x02], cur_c = 1, cur_rkyv = False\<rparr>) = Inl StructError
   \<and> fst (get_u32 \<lparr>cur_b = [0x01, 0x02, 0x03, 0x04, 0x05, 0x06], cur_c = 1, cur_rkyv = True\<rparr>)
       = Inl StructError
   \<and> get_leb (Cursor [0x03, 0x2A] False)
       = (Inr 3, \<lparr>cur_b = [0x03, 0x2A], cur_c = 1, cur_rkyv = False\<rparr>)
   \<and> get_byte_array (Cursor [0x03, 0x2A] False)
       = (Inr [0x2A], \<lparr>cur_b = [0x03, 0x2A], cur_c = 4, cur_rkyv = False\<rparr>)"
  using get_leb_03
    cursor_reads_past_end [where c = "\<lparr>cur_b = [0x01, 0x02], cur_c = 2, cur_rkyv = False\<rparr>"]
    cursor_reads_past_end [where c = "\<lparr>cur_b = [0x01, 0x02], cur_c = 1, cur_rkyv = False\<rparr>"]
    cursor_reads_past_end [where c = "\<lparr>cur_b = [0x01, 0x02, 0x03, 0x04, 0x05, 0x06], cur_c = 1, cur_rkyv = True\<rparr>"]
    cursor_reads_past_end [where c = "Cursor [0x03, 0x2A] False" and l = 3
      and c' = "\<lparr>cur_b = [0x03, 0x2A], cur_c = 1, cur_rkyv = False\<rparr>"]
  by simp

section \<open>Commands\<close>

lemma bnd_ret: "bnd (ret x) f = f x"
  by (rule ext) (simp add: bnd_def ret_def)

lemma bnd_assoc: "bnd (bnd m f) g = bnd m (\<lambda>x. bnd (f x) g)"
  by (rule ext) (simp add: bnd_def split: prod.splits sum.splits)

lemma get_leb_small:
  "peek_bytes 1 c = [x] \<Longrightarrow> x AND 0x80 = 0 \<Longrightarrow> get_leb c = (Inr (unat x), c\<lparr>cur_c := cur_c c + 1\<rparr>)"
  using get_leb_valid [of "[x]" c] by (simp add: byte_and_7F)

text \<open>
  Claim C8. Behind the 32 bytes of \<open>id\<close>, \<open>CommandData\<close> reads the varint
  \<open>priority\<close>. If it is 1, one more varint is read as \<open>priority_value\<close> and the
  remaining fields start behind it; for every other value, 0 included, the remaining
  fields start right behind \<open>priority\<close> and \<open>priority_value\<close> is \<open>None\<close>.
\<close>

theorem CommandData_priority_value:
  "(get_leb (c\<lparr>cur_c := cur_c c + 32\<rparr>) = (Inl e, c2) \<longrightarrow> CommandData c = (Inl e, c2))
   \<and> (get_leb (c\<lparr>cur_c := cur_c c + 32\<rparr>) = (Inr tag, c2) \<longrightarrow>
        CommandData c =
          (if tag = 1 then bnd get_leb (\<lambda>v. command_rest (peek_bytes 32 c) tag (Some v)) c2
           else command_rest (peek_bytes 32 c) tag None c2))
   \<and> (CommandData c = (Inr cmd, c') \<longrightarrow>
        (cmd_priority_value cmd \<noteq> None \<longleftrightarrow> cmd_priority cmd = 1))"
proof (intro conjI impI)
  assume "get_leb (c\<lparr>cur_c := cur_c c + 32\<rparr>) = (Inl e, c2)"
  then show "CommandData c = (Inl e, c2)"
    by (simp add: CommandData_def bnd_def get_bytes_def)
next
  assume "get_leb (c\<lparr>cur_c := cur_c c + 32\<rparr>) = (Inr tag, c2)"
  then show "CommandData c =
          (if tag = 1 then bnd get_leb (\<lambda>v. command_rest (peek_bytes 32 c) tag (Some v)) c2
           else command_rest (peek_bytes 32 c) tag None c2)"
    by (simp add: CommandData_def bnd_def [of "get_bytes 32"] bnd_def [of get_leb _ "c\<lparr>cur_c := cur_c c + 32\<rparr>"]
        get_bytes_def bnd_ret bnd_assoc)
next
  assume "CommandData c = (Inr cmd, c')"
  then show "cmd_priority_value cmd \<noteq> None \<longleftrightarrow> cmd_priority cmd = 1"
    by (auto simp: CommandData_def bnd_eq_Inr ret_def split: if_splits)
qed


text \<open>The equations that evaluate a decoder on a given buffer.\<close>

lemmas cursor_eval =
  Cursor_def bnd_def ret_def raise_def lift_def get_u8_def get_bool_def peek_bytes_def
  get_bytes_def get_option_def get_leb_def leb_loop.simps leb_fold_def get_byte_array_def
  get_array_def

theorem CommandData_priority_value_witness:
  "CommandData (Cursor (replicate 32 0 @ [0x01, 0x05, 0x00, 0x00, 0x00]) False)
     = (Inr \<lparr>cmd_id = replicate 32 0, cmd_priority = 1, cmd_priority_value = Some 5,
             cmd_policy = None, cmd_data = [], cmd_updates = []\<rparr>,
        \<lparr>cur_b = replicate 32 0 @ [0x01, 0x05, 0x00, 0x00, 0x00], cur_c = 37, cur_rkyv = False\<rparr>)
   \<and> CommandData (Cursor (replicate 32 0 @ [0x00, 0x00, 0x00, 0x00]) False)
     = (Inr \<lparr>cmd_id = replicate 32 0, cmd_priority = 0, cmd_priority_value = None,
             cmd_policy = None, cmd_data = [], cmd_updates = []\<rparr>,
        \<lparr>cur_b = replicate 32 0 @ [0x00, 0x00, 0x00, 0x00], cur_c = 36, cur_rkyv = False\<rparr>)
   \<and> CommandData (Cursor (replicate 32 0 @ [0x02, 0x00, 0x00, 0x00]) False)
     = (Inr \<lparr>cmd_id = replicate 32 0, cmd_priority = 2, cmd_priority_value = None,
             cmd_policy = None, cmd_data = [], cmd_updates = []\<rparr>,
        \<lparr>cur_b = replicate 32 0 @ [0x02, 0x00, 0x00, 0x00], cur_c = 36, cur_rkyv = False\<rparr>)"
proof -
  let ?c1 = "Cursor (replicate 32 0 @ [0x01, 0x05, 0x00, 0x00, 0x00]) False"
  let ?c0 = "Cursor (replicate 32 0 @ [0x00, 0x00, 0x00, 0x00]) False"
  let ?c2 = "Cursor (replicate 32 0 @ [0x02, 0x00, 0x00, 0x00]) False"
  have g1: "get_leb (?c1\<lparr>cur_c := cur_c ?c1 + 32\<rparr>) = (Inr 1, ?c1\<lparr>cur_c := 33\<rparr>)"
    by (simp add: cursor_eval nth_append)
  have g0: "get_leb (?c0\<lparr>cur_c := cur_c ?c0 + 32\<rparr>) = (Inr 0, ?c0\<lparr>cur_c := 33\<rparr>)"
    by (simp add: cursor_eval nth_append)
  have g2: "get_leb (?c2\<lparr>cur_c := cur_c ?c2 + 32\<rparr>) = (Inr 2, ?c2\<lparr>cur_c := 33\<rparr>)"
    by (simp add: cursor_eval nth_append)
  note t1 = CommandData_priority_value [where c = ?c1, THEN conjunct2, THEN conjunct1, rule_format, OF g1]
  note t0 = CommandData_priority_value [where c = ?c0, THEN conjunct2, THEN conjunct1, rule_format, OF g0]
  note t2 = CommandData_priority_value [where c = ?c2, THEN conjunct2, THEN conjunct1, rule_format, OF g2]
  show ?thesis
    unfolding t1 t0 t2 by (simp add: cursor_eval nth_append)
qed

text \<open>
  Claim C2 fails on the code. The decoder of one record of \<open>updates\<close> starts with
  \<open>c.get_string()\<close>, which \<open>Cursor\<close> does not have: with a count of 1 or more the
  array raises \<open>AttributeError\<close> behind the count, and so does the command, here one
  with no priority value, no policy, empty data and one update.
\<close>

theorem CommandData_updates_raise:
  "get_array decode_update c =
     (case get_leb c of
        (Inl e, c') \<Rightarrow> (Inl e, c')
      | (Inr l, c') \<Rightarrow> if l = 0 then (Inr [], c') else (Inl (AttributeError ''get_string''), c'))
   \<and> CommandData (Cursor (replicate 32 0 @ [0x00, 0x00, 0x00, 0x01, 0x00, 0x00, 0x00]) False)
     = (Inl (AttributeError ''get_string''),
        \<lparr>cur_b = replicate 32 0 @ [0x00, 0x00, 0x00, 0x01, 0x00, 0x00, 0x00], cur_c = 36,
         cur_rkyv = False\<rparr>)"
proof
  show "get_array decode_update c =
     (case get_leb c of
        (Inl e, c') \<Rightarrow> (Inl e, c')
      | (Inr l, c') \<Rightarrow> if l = 0 then (Inr [], c') else (Inl (AttributeError ''get_string''), c'))"
  proof (cases "get_leb c")
    case (Pair r c')
    show ?thesis
    proof (cases r)
      case (Inl e)
      with Pair show ?thesis by (simp add: get_array_def bnd_def)
    next
      case (Inr l)
      with Pair show ?thesis
        by (cases l) (simp_all add: get_array_def bnd_def ret_def decode_update_def get_string_def raise_def)
    qed
  qed
next
  show "CommandData (Cursor (replicate 32 0 @ [0x00, 0x00, 0x00, 0x01, 0x00, 0x00, 0x00]) False)
     = (Inl (AttributeError ''get_string''),
        \<lparr>cur_b = replicate 32 0 @ [0x00, 0x00, 0x00, 0x01, 0x00, 0x00, 0x00], cur_c = 36,
         cur_rkyv = False\<rparr>)"
    by (simp add: CommandData_def cursor_eval decode_update_def get_string_def nth_append)
qed

section \<open>Segments\<close>

lemma for_range_length:
  "for_range n d vs c = (Inr r, c') \<Longrightarrow> length r = length vs + n"
proof (induction n arbitrary: vs c)
  case 0
  then show ?case by (simp add: ret_def)
next
  case (Suc n)
  from Suc.prems obtain v c1 where "d c = (Inr v, c1)" "for_range n d (vs @ [v]) c1 = (Inr r, c')"
    by (auto simp: bnd_eq_Inr)
  with Suc.IH show ?case by fastforce
qed

lemma get_prior_length: "get_prior d c = (Inr r, c') \<Longrightarrow> length r \<le> 2"
  by (auto simp: get_prior_def Prior_def bnd_eq_Inr raise_def split: if_splits
      dest!: for_range_length)

lemma fst_bnd_ret:
  "fst (bnd m (\<lambda>t. ret (f t)) c) = (case fst (m c) of Inl e \<Rightarrow> Inl e | Inr t \<Rightarrow> Inr (f t))"
  by (simp add: bnd_def ret_def split: prod.splits sum.splits)

lemma decode_data_fields:
  "decode_data off sz data =
     (case fst (payload_fields (Cursor data False)) of
        Inl e \<Rightarrow> Inl e
      | Inr (self_offset, prior, parents, policy, facts, commands, max_cut, skip_list) \<Rightarrow>
          Inr \<lparr>seg_offset = off, seg_size = sz, seg_data = data, seg_prior = prior,
               seg_parents = parents, seg_policy = policy, seg_facts = facts,
               seg_type = segment_kind (length parents)\<rparr>)"
proof -
  have "decode_data off sz data =
      fst (bnd payload_fields
        (\<lambda>t. ret (case t of (self_offset, prior, parents, policy, facts, commands, max_cut, skip_list) \<Rightarrow>
          \<lparr>seg_offset = off, seg_size = sz, seg_data = data, seg_prior = prior,
               seg_parents = parents, seg_policy = policy, seg_facts = facts,
               seg_type = segment_kind (length parents)\<rparr>)) (Cursor data False))"
    by (simp add: decode_data_def payload_fields_def bnd_assoc bnd_ret segment_kind_def)
  then show ?thesis by (simp add: fst_bnd_ret split: sum.splits)
qed

lemma get_leb_in_range: "get_leb c = (Inr v, c') \<Longrightarrow> cur_c c < length (cur_b c)"
  by (auto simp: get_leb_def bnd_eq_Inr get_u8_def split: if_splits)

lemma payload_policy_length:
  assumes "payload_fields c = (Inr (so, pr, pa, po, fa, cm, mc, sl), c')"
  shows "length po = 32"
proof -
  from assms obtain c3 c4 c5 where p: "get_bytes 32 c3 = (Inr po, c4)" and l: "get_leb c4 = (Inr fa, c5)"
    by (auto simp: payload_fields_def bnd_eq_Inr ret_def)
  from l have "cur_c c4 < length (cur_b c4)" by (rule get_leb_in_range)
  with p show ?thesis by (auto simp: get_bytes_def peek_bytes_def)
qed

lemma for_range_numeral:
  "for_range (numeral k) d vs = bnd d (\<lambda>v. for_range (pred_numeral k) d (vs @ [v]))"
  by (simp add: numeral_eq_Suc)

lemmas segment_eval =
  Segment_read_def unpack_from_le_def DATA_OFFSET_def SEGMENT_HEADER_MAGIC_def decode_data_def
  get_prior_def Prior_def decode_location_def decode_address_def decode_skip_def
  int_str_fits_small

text \<open>
  Claim C6, amended. \<open>Segment.read\<close> at \<open>offset\<close> fails unless the four bytes at
  \<open>offset + 4096\<close> are \<open>1E 53 4F 00\<close>, with \<open>bad segment header magic\<close> (or with
  \<open>ValueError\<close> if the offset is too long to be written into that message); it reads \<open>size\<close> as the little-endian value of the four bytes
  behind the magic (a \<open>struct.error\<close> if they are not all there); the payload is the
  slice of the dump from \<open>offset + 4096 + 8\<close> to \<open>offset + 4096 + 8 + size\<close>, which has
  \<open>size\<close> bytes if the dump is that long and the bytes that are left if not; and the
  segment is made of the fields of the payload, read in the order of the specification by
  a cursor that never aligns. A segment that decodes has a policy of 32 bytes.
\<close>

theorem Segment_read_layout:
  "(let sz = le_value (take 4 (drop (offset + 4096 + 4) b));
        payload = take sz (drop (offset + 4096 + 8) b)
    in Segment_read b offset =
         (if take 4 (drop (offset + 4096) b) \<noteq> [0x1E, 0x53, 0x4F, 0x00]
          then (if int_str_fits offset then Inl (BadSegmentHeaderMagic offset)
                else Inl ValueError)
          else if length b < offset + 4096 + 8 then Inl StructError
          else case fst (payload_fields (Cursor payload False)) of
                 Inl e \<Rightarrow> Inl e
               | Inr (self_offset, prior, parents, policy, facts, commands, max_cut, skip_list) \<Rightarrow>
                   Inr \<lparr>seg_offset = offset, seg_size = sz, seg_data = payload, seg_prior = prior,
                        seg_parents = parents, seg_policy = policy, seg_facts = facts,
                        seg_type = segment_kind (length parents)\<rparr>)
       \<and> length payload = min sz (length b - (offset + 4096 + 8)))
   \<and> (Segment_read b offset = Inr seg \<longrightarrow> length (seg_policy seg) = 32)"
proof
  show "let sz = le_value (take 4 (drop (offset + 4096 + 4) b));
        payload = take sz (drop (offset + 4096 + 8) b)
    in Segment_read b offset =
         (if take 4 (drop (offset + 4096) b) \<noteq> [0x1E, 0x53, 0x4F, 0x00]
          then (if int_str_fits offset then Inl (BadSegmentHeaderMagic offset)
                else Inl ValueError)
          else if length b < offset + 4096 + 8 then Inl StructError
          else case fst (payload_fields (Cursor payload False)) of
                 Inl e \<Rightarrow> Inl e
               | Inr (self_offset, prior, parents, policy, facts, commands, max_cut, skip_list) \<Rightarrow>
                   Inr \<lparr>seg_offset = offset, seg_size = sz, seg_data = payload, seg_prior = prior,
                        seg_parents = parents, seg_policy = policy, seg_facts = facts,
                        seg_type = segment_kind (length parents)\<rparr>)
       \<and> length payload = min sz (length b - (offset + 4096 + 8))"
    by (simp add: Let_def Segment_read_def unpack_from_le_def DATA_OFFSET_def
        SEGMENT_HEADER_MAGIC_def decode_data_fields min_def)
next
  show "Segment_read b offset = Inr seg \<longrightarrow> length (seg_policy seg) = 32"
  proof
    assume a: "Segment_read b offset = Inr seg"
    then obtain sz data where d: "decode_data offset sz data = Inr seg"
      by (auto simp: Segment_read_def split: if_splits sum.splits)
    then obtain so pr pa po fa cm mc sl c' where
      f: "payload_fields (Cursor data False) = (Inr (so, pr, pa, po, fa, cm, mc, sl), c')"
      and s: "seg_policy seg = po"
      by (auto simp: decode_data_fields split: sum.splits prod.splits) (metis fst_conv surj_pair)
    from payload_policy_length [OF f] s show "length (seg_policy seg) = 32" by simp
  qed
qed

text \<open>A dump that ends 39 bytes into a payload of declared size 255: the segment decodes.\<close>

theorem Segment_read_layout_counterexample:
  "Segment_read (replicate 4096 0 @ [0x1E, 0x53, 0x4F, 0x00, 0xFF, 0x00, 0x00, 0x00] @ replicate 39 0) 0
     = Inr \<lparr>seg_offset = 0, seg_size = 255, seg_data = replicate 39 0, seg_prior = [],
            seg_parents = [], seg_policy = replicate 32 0, seg_facts = 0,
            seg_type = Some ''init''\<rparr>"
  by (simp add: segment_eval cursor_eval)


theorem Segment_read_layout_witness:
  "Segment_read
     (replicate 4100 0 @ [0x1E, 0x53, 0x4F, 0x00, 0x4D, 0x00, 0x00, 0x00]
        @ [0x00, 0x01, 0x07, 0x01, 0x01] @ replicate 32 0xAB @ [0x02] @ replicate 32 0xCD
        @ [0x03, 0x00, 0x04, 0x01, 0x05, 0x06, 0x07]) 4
     = Inr \<lparr>seg_offset = 4, seg_size = 77,
            seg_data = [0x00, 0x01, 0x07, 0x01, 0x01] @ replicate 32 0xAB @ [0x02]
              @ replicate 32 0xCD @ [0x03, 0x00, 0x04, 0x01, 0x05, 0x06, 0x07],
            seg_prior = [(7, 1)], seg_parents = [(replicate 32 0xAB, 2)],
            seg_policy = replicate 32 0xCD, seg_facts = 3, seg_type = Some ''basic''\<rparr>
   \<and> length (replicate 32 (0xCD :: byte)) = 32"
  using Segment_read_layout
    [where offset = 4
       and b = "replicate 4100 0 @ [0x1E, 0x53, 0x4F, 0x00, 0x4D, 0x00, 0x00, 0x00]
        @ [0x00, 0x01, 0x07, 0x01, 0x01] @ replicate 32 0xAB @ [0x02] @ replicate 32 0xCD
        @ [0x03, 0x00, 0x04, 0x01, 0x05, 0x06, 0x07]"
       and seg = "\<lparr>seg_offset = 4, seg_size = 77,
            seg_data = [0x00, 0x01, 0x07, 0x01, 0x01] @ replicate 32 0xAB @ [0x02]
              @ replicate 32 0xCD @ [0x03, 0x00, 0x04, 0x01, 0x05, 0x06, 0x07],
            seg_prior = [(7, 1)], seg_parents = [(replicate 32 0xAB, 2)],
            seg_policy = replicate 32 0xCD, seg_facts = 3, seg_type = Some ''basic''\<rparr>"]
  by (simp add: segment_eval cursor_eval nth_append)

text \<open>
  Claim C7. A segment that decodes has no, one or two parents, and its type is
  \<open>init\<close>, \<open>basic\<close> or \<open>merge\<close> accordingly.
\<close>

theorem Segment_kind_by_parents:
  assumes "Segment b offset = Inr seg"
  shows "(length (seg_parents seg) = 0 \<and> seg_type seg = Some ''init'')
       \<or> (length (seg_parents seg) = 1 \<and> seg_type seg = Some ''basic'')
       \<or> (length (seg_parents seg) = 2 \<and> seg_type seg = Some ''merge'')"
proof -
  from assms obtain sz data where d: "decode_data offset sz data = Inr seg"
    by (auto simp: Segment_def Segment_read_def split: if_splits sum.splits)
  then obtain so pr pa po fa cm mc sl c' where
    f: "payload_fields (Cursor data False) = (Inr (so, pr, pa, po, fa, cm, mc, sl), c')"
    and s: "seg_parents seg = pa" "seg_type seg = segment_kind (length pa)"
    by (auto simp: decode_data_fields split: sum.splits prod.splits) (metis fst_conv surj_pair)
  from f obtain c1 c2 where "get_prior decode_address c1 = (Inr pa, c2)"
    by (auto simp: payload_fields_def bnd_eq_Inr ret_def)
  then have "length pa \<le> 2" by (rule get_prior_length)
  then have "length pa = 0 \<or> length pa = 1 \<or> length pa = 2" by arith
  with s show ?thesis by (auto simp: segment_kind_def)
qed

theorem Segment_kind_by_parents_witness:
  "Segment
     (replicate 4096 0 @ [0x1E, 0x53, 0x4F, 0x00, 0x69, 0x00, 0x00, 0x00]
        @ [0x00, 0x00, 0x02] @ replicate 32 0x11 @ [0x01] @ replicate 32 0x22 @ [0x02]
        @ replicate 32 0x33 @ [0x00, 0x00, 0x00, 0x00]) 0
     = Inr \<lparr>seg_offset = 0, seg_size = 105,
            seg_data = [0x00, 0x00, 0x02] @ replicate 32 0x11 @ [0x01] @ replicate 32 0x22
              @ [0x02] @ replicate 32 0x33 @ [0x00, 0x00, 0x00, 0x00],
            seg_prior = [], seg_parents = [(replicate 32 0x11, 1), (replicate 32 0x22, 2)],
            seg_policy = replicate 32 0x33, seg_facts = 0, seg_type = Some ''merge''\<rparr>
   \<and> length [(replicate 32 (0x11 :: byte), 1 :: nat), (replicate 32 0x22, 2)] = 2"
proof -
  have e: "Segment
     (replicate 4096 0 @ [0x1E, 0x53, 0x4F, 0x00, 0x69, 0x00, 0x00, 0x00]
        @ [0x00, 0x00, 0x02] @ replicate 32 0x11 @ [0x01] @ replicate 32 0x22 @ [0x02]
        @ replicate 32 0x33 @ [0x00, 0x00, 0x00, 0x00]) 0
     = Inr \<lparr>seg_offset = 0, seg_size = 105,
            seg_data = [0x00, 0x00, 0x02] @ replicate 32 0x11 @ [0x01] @ replicate 32 0x22
              @ [0x02] @ replicate 32 0x33 @ [0x00, 0x00, 0x00, 0x00],
            seg_prior = [], seg_parents = [(replicate 32 0x11, 1), (replicate 32 0x22, 2)],
            seg_policy = replicate 32 0x33, seg_facts = 0, seg_type = Some ''merge''\<rparr>"
    by (simp add: Segment_def segment_eval cursor_eval nth_append for_range_numeral)
  show ?thesis using e Segment_kind_by_parents [OF e] by simp
qed

section \<open>The header\<close>

lemma Header_bad_magic:
  "take 4 b \<noteq> STORAGE_HEADER_MAGIC \<Longrightarrow>
   Header b = (Inl BadHeaderMagic, \<lparr>cur_b = b, cur_c = 4, cur_rkyv = True\<rparr>)"
  by (simp add: Header_def bnd_def get_bytes_def peek_bytes_def Cursor_def raise_def)

lemma Header_good_magic:
  "take 4 b = STORAGE_HEADER_MAGIC \<Longrightarrow>
   Header b = header_fields \<lparr>cur_b = b, cur_c = 4, cur_rkyv = True\<rparr>"
  by (simp add: Header_def bnd_def [of "get_bytes 4"] get_bytes_def peek_bytes_def Cursor_def
      header_fields_def)

lemma get_u32_aligned:
  assumes "cur_rkyv c" "cur_c c mod 4 = 0" "cur_c c + 4 \<le> length (cur_b c)"
  shows "get_u32 c = (Inr (le_value (take 4 (drop (cur_c c) (cur_b c)))), c\<lparr>cur_c := cur_c c + 4\<rparr>)"
  using assms
  by (simp add: get_u32_def bnd_def align_def get_bytes_def peek_bytes_def lift_def unpack_le_def)

lemma get_u32_unaligned:
  assumes "cur_rkyv c" "cur_c c mod 4 = 1" "cur_c c + 7 \<le> length (cur_b c)"
  shows "get_u32 c = (Inr (le_value (take 4 (drop (cur_c c + 3) (cur_b c)))), c\<lparr>cur_c := cur_c c + 7\<rparr>)"
  using assms
  by (simp add: get_u32_def bnd_def align_def get_bytes_def peek_bytes_def lift_def unpack_le_def)

lemma get_bool_in_range:
  "cur_c c < length (cur_b c) \<Longrightarrow>
   get_bool c = (Inr (cur_b c ! cur_c c \<noteq> 0), c\<lparr>cur_c := cur_c c + 1\<rparr>)"
  by (simp add: get_bool_def bnd_def get_u8_def ret_def)

lemma header_tail:
  assumes "g mod 4 = 0" "g + (if b ! g \<noteq> 0 then 16 else 8) \<le> length b"
  shows "bnd (get_option (bnd get_u32 (\<lambda>h0. bnd get_u32 (\<lambda>h1. ret (h0, h1))))) (\<lambda>head.
         bnd get_u32 (\<lambda>stored_bytes.
         ret \<lparr>hdr_epoch = e, hdr_graph_id = gid, hdr_head = head, hdr_stored_bytes = stored_bytes\<rparr>))
         \<lparr>cur_b = b, cur_c = g, cur_rkyv = True\<rparr>
       = (Inr \<lparr>hdr_epoch = e, hdr_graph_id = gid,
               hdr_head = (if b ! g \<noteq> 0
                           then Some (le_value (take 4 (drop (g + 4) b)), le_value (take 4 (drop (g + 8) b)))
                           else None),
               hdr_stored_bytes = le_value (take 4 (drop (if b ! g \<noteq> 0 then g + 12 else g + 4) b))\<rparr>,
          \<lparr>cur_b = b, cur_c = (if b ! g \<noteq> 0 then g + 16 else g + 8), cur_rkyv = True\<rparr>)"
proof -
  have m1: "(g + 1) mod 4 = 1" using assms(1) by presburger
  have m4: "(g + 8) mod 4 = 0" "(g + 12) mod 4 = 0" using assms(1) by presburger+
  from assms(2) have len: "g + 8 \<le> length b" by (simp split: if_splits)
  let ?c = "\<lparr>cur_b = b, cur_c = g, cur_rkyv = True\<rparr>"
  let ?c1 = "\<lparr>cur_b = b, cur_c = Suc g, cur_rkyv = True\<rparr>"
  have gb: "get_bool ?c = (Inr (b ! g \<noteq> 0), ?c1)"
    using len get_bool_in_range [of ?c] by simp
  have u1: "get_u32 ?c1 = (Inr (le_value (take 4 (drop (g + 4) b))), \<lparr>cur_b = b, cur_c = g + 8, cur_rkyv = True\<rparr>)"
    using get_u32_unaligned [of ?c1] m1 len by (simp add: add.commute)
  show ?thesis
  proof (cases "b ! g \<noteq> 0")
    case False
    then show ?thesis
      apply (simp add: get_option_def bnd_assoc bnd_ret bnd_Inr [where m = get_bool, OF gb]
          bnd_Inr [where m = get_u32, OF u1])
      apply (simp add: ret_def)
      done
  next
    case True
    with assms(2) have l16: "g + 16 \<le> length b" by simp
    have u2: "get_u32 \<lparr>cur_b = b, cur_c = g + 8, cur_rkyv = True\<rparr>
      = (Inr (le_value (take 4 (drop (g + 8) b))), \<lparr>cur_b = b, cur_c = g + 12, cur_rkyv = True\<rparr>)"
      using get_u32_aligned [of "\<lparr>cur_b = b, cur_c = g + 8, cur_rkyv = True\<rparr>"] m4 l16 by simp
    have u3: "get_u32 \<lparr>cur_b = b, cur_c = g + 12, cur_rkyv = True\<rparr>
      = (Inr (le_value (take 4 (drop (g + 12) b))), \<lparr>cur_b = b, cur_c = g + 16, cur_rkyv = True\<rparr>)"
      using get_u32_aligned [of "\<lparr>cur_b = b, cur_c = g + 12, cur_rkyv = True\<rparr>"] m4 l16 by simp
    from True show ?thesis
      apply (simp add: get_option_def bnd_assoc bnd_ret bnd_Inr [where m = get_bool, OF gb]
          bnd_Inr [where m = get_u32, OF u1] bnd_Inr [where m = get_u32, OF u2]
          bnd_Inr [where m = get_u32, OF u3])
      apply (simp add: ret_def)
      done
  qed
qed

lemma header_fields_layout:
  assumes "(if b ! 8 \<noteq> 0 then 44 else 12) = g" "g + (if b ! g \<noteq> 0 then 16 else 8) \<le> length b"
  shows "header_fields \<lparr>cur_b = b, cur_c = 4, cur_rkyv = True\<rparr>
       = (Inr \<lparr>hdr_epoch = le_value (take 4 (drop 4 b)),
               hdr_graph_id = (if b ! 8 \<noteq> 0 then Some (take 32 (drop 9 b)) else None),
               hdr_head = (if b ! g \<noteq> 0
                           then Some (le_value (take 4 (drop (g + 4) b)), le_value (take 4 (drop (g + 8) b)))
                           else None),
               hdr_stored_bytes = le_value (take 4 (drop (if b ! g \<noteq> 0 then g + 12 else g + 4) b))\<rparr>,
          \<lparr>cur_b = b, cur_c = (if b ! g \<noteq> 0 then g + 16 else g + 8), cur_rkyv = True\<rparr>)"
proof -
  from assms have g: "g = 12 \<or> g = 44" and len: "g + 8 \<le> length b" by (auto split: if_splits)
  then have gm: "g mod 4 = 0" by auto
  let ?c4 = "\<lparr>cur_b = b, cur_c = 4, cur_rkyv = True\<rparr>"
  let ?c8 = "\<lparr>cur_b = b, cur_c = 8, cur_rkyv = True\<rparr>"
  let ?c9 = "\<lparr>cur_b = b, cur_c = 9, cur_rkyv = True\<rparr>"
  have e: "get_u32 ?c4 = (Inr (le_value (take 4 (drop 4 b))), ?c8)"
    using get_u32_aligned [of ?c4] g len by auto
  have gb: "get_bool ?c8 = (Inr (b ! 8 \<noteq> 0), ?c9)"
    using get_bool_in_range [of ?c8] g len by auto
  have al: "align 4 \<lparr>cur_b = b, cur_c = (if b ! 8 \<noteq> 0 then 41 else 9), cur_rkyv = True\<rparr>
      = (Inr (), \<lparr>cur_b = b, cur_c = g, cur_rkyv = True\<rparr>)"
    using assms(1) by (auto simp: align_def)
  have go: "get_option (get_bytes 32) ?c8
      = (Inr (if b ! 8 \<noteq> 0 then Some (take 32 (drop 9 b)) else None),
         \<lparr>cur_b = b, cur_c = (if b ! 8 \<noteq> 0 then 41 else 9), cur_rkyv = True\<rparr>)"
    by (simp add: get_option_def bnd_Inr [where m = get_bool, OF gb] bnd_def [of "get_bytes 32"]
        get_bytes_def peek_bytes_def ret_def)
  show ?thesis
    unfolding header_fields_def
    by (simp only: bnd_Inr [where m = get_u32, OF e] bnd_Inr [where m = "get_option (get_bytes 32)", OF go]
        bnd_Inr [where m = "align 4", OF al] header_tail [OF gm assms(2)])
qed


text \<open>
  Claim C9. If the first four bytes of the dump are not \<open>1C 53 4F 00\<close> (or are not
  all there), \<open>Header\<close> raises \<open>bad header magic\<close> with the cursor at 4: nothing
  behind the magic was read. If they are, the fields are read from position 4 on in the
  order \<open>epoch\<close>, \<open>graph_id\<close>, \<open>head\<close>, \<open>stored_bytes\<close> in word-aligned mode: with
  \<open>g\<close> the aligned position behind \<open>graph_id\<close> (12 without, 44 with its 32 bytes), the
  flag of \<open>head\<close> is the byte at \<open>g\<close>, its two values are at \<open>g + 4\<close> and \<open>g + 8\<close>,
  and \<open>stored_bytes\<close> follows at the next multiple of 4.
\<close>

theorem Header_magic_first:
  "(take 4 b \<noteq> [0x1C, 0x53, 0x4F, 0x00] \<longrightarrow>
      Header b = (Inl BadHeaderMagic, \<lparr>cur_b = b, cur_c = 4, cur_rkyv = True\<rparr>))
   \<and> (take 4 b = [0x1C, 0x53, 0x4F, 0x00] \<longrightarrow>
      Header b = header_fields \<lparr>cur_b = b, cur_c = 4, cur_rkyv = True\<rparr>
      \<and> (let g = (if b ! 8 \<noteq> 0 then 44 else 12) in
           g + (if b ! g \<noteq> 0 then 16 else 8) \<le> length b \<longrightarrow>
           Header b =
             (Inr \<lparr>hdr_epoch = le_value (take 4 (drop 4 b)),
                   hdr_graph_id = (if b ! 8 \<noteq> 0 then Some (take 32 (drop 9 b)) else None),
                   hdr_head =
                     (if b ! g \<noteq> 0
                      then Some (le_value (take 4 (drop (g + 4) b)),
                                 le_value (take 4 (drop (g + 8) b)))
                      else None),
                   hdr_stored_bytes =
                     le_value (take 4 (drop (if b ! g \<noteq> 0 then g + 12 else g + 4) b))\<rparr>,
              \<lparr>cur_b = b, cur_c = (if b ! g \<noteq> 0 then g + 16 else g + 8), cur_rkyv = True\<rparr>)))"
proof (intro conjI impI)
  assume "take 4 b \<noteq> [0x1C, 0x53, 0x4F, 0x00]"
  then show "Header b = (Inl BadHeaderMagic, \<lparr>cur_b = b, cur_c = 4, cur_rkyv = True\<rparr>)"
    by (simp add: Header_bad_magic STORAGE_HEADER_MAGIC_def)
next
  assume "take 4 b = [0x1C, 0x53, 0x4F, 0x00]"
  then show "Header b = header_fields \<lparr>cur_b = b, cur_c = 4, cur_rkyv = True\<rparr>"
    by (simp add: Header_good_magic STORAGE_HEADER_MAGIC_def)
next
  assume m: "take 4 b = [0x1C, 0x53, 0x4F, 0x00]"
  then have h: "Header b = header_fields \<lparr>cur_b = b, cur_c = 4, cur_rkyv = True\<rparr>"
    by (simp add: Header_good_magic STORAGE_HEADER_MAGIC_def)
  show "let g = (if b ! 8 \<noteq> 0 then 44 else 12) in
           g + (if b ! g \<noteq> 0 then 16 else 8) \<le> length b \<longrightarrow>
           Header b =
             (Inr \<lparr>hdr_epoch = le_value (take 4 (drop 4 b)),
                   hdr_graph_id = (if b ! 8 \<noteq> 0 then Some (take 32 (drop 9 b)) else None),
                   hdr_head =
                     (if b ! g \<noteq> 0
                      then Some (le_value (take 4 (drop (g + 4) b)),
                                 le_value (take 4 (drop (g + 8) b)))
                      else None),
                   hdr_stored_bytes =
                     le_value (take 4 (drop (if b ! g \<noteq> 0 then g + 12 else g + 4) b))\<rparr>,
              \<lparr>cur_b = b, cur_c = (if b ! g \<noteq> 0 then g + 16 else g + 8), cur_rkyv = True\<rparr>)"
    unfolding Let_def h
    by (intro impI, rule header_fields_layout [OF refl])
qed

theorem Header_magic_first_witness:
  "Header ([0x1E, 0x53, 0x4F, 0x00, 0x2A, 0x00, 0x00, 0x00] @ replicate 52 0)
     = (Inl BadHeaderMagic,
        \<lparr>cur_b = [0x1E, 0x53, 0x4F, 0x00, 0x2A, 0x00, 0x00, 0x00] @ replicate 52 0, cur_c = 4,
         cur_rkyv = True\<rparr>)
   \<and> Header ([0x1C, 0x53, 0x4F, 0x00, 0x2A, 0x00, 0x00, 0x00, 0x01] @ replicate 32 0x77
         @ [0x00, 0x00, 0x00, 0x01, 0x00, 0x00, 0x00, 0x00, 0x10, 0x00, 0x00,
            0x05, 0x00, 0x00, 0x00, 0x40, 0x01, 0x00, 0x00])
     = (Inr \<lparr>hdr_epoch = 42, hdr_graph_id = Some (replicate 32 0x77),
             hdr_head = Some (4096, 5), hdr_stored_bytes = 320\<rparr>,
        \<lparr>cur_b = [0x1C, 0x53, 0x4F, 0x00, 0x2A, 0x00, 0x00, 0x00, 0x01] @ replicate 32 0x77
           @ [0x00, 0x00, 0x00, 0x01, 0x00, 0x00, 0x00, 0x00, 0x10, 0x00, 0x00,
              0x05, 0x00, 0x00, 0x00, 0x40, 0x01, 0x00, 0x00],
         cur_c = 60, cur_rkyv = True\<rparr>)"
proof -
  let ?bad = "[0x1E, 0x53, 0x4F, 0x00, 0x2A, 0x00, 0x00, 0x00] @ replicate 52 (0 :: byte)"
  let ?good = "[0x1C, 0x53, 0x4F, 0x00, 0x2A, 0x00, 0x00, 0x00, 0x01] @ replicate 32 0x77
         @ [0x00, 0x00, 0x00, 0x01, 0x00, 0x00, 0x00, 0x00, 0x10, 0x00, 0x00,
            0x05, 0x00, 0x00, 0x00, 0x40, 0x01, 0x00, 0x00 :: byte]"
  have mb: "take 4 ?bad \<noteq> [0x1C, 0x53, 0x4F, 0x00]" by simp
  have mg: "take 4 ?good = [0x1C, 0x53, 0x4F, 0x00]" by simp
  note bad = Header_magic_first [where b = ?bad, THEN conjunct1, rule_format, OF mb]
  note good = Header_magic_first [where b = ?good, THEN conjunct2, rule_format, OF mg,
      THEN conjunct2, unfolded Let_def, rule_format]
  have "Header ?good
     = (Inr \<lparr>hdr_epoch = 42, hdr_graph_id = Some (replicate 32 0x77),
             hdr_head = Some (4096, 5), hdr_stored_bytes = 320\<rparr>,
        \<lparr>cur_b = ?good, cur_c = 60, cur_rkyv = True\<rparr>)"
    by (subst good) (simp_all add: nth_append)
  with bad show ?thesis by simp
qed

section \<open>The script\<close>

text \<open>
  Claim C10. If the header decodes and has no head, the script stops at \<open>h.head[0]\<close>
  with a \<open>TypeError\<close>: no \<open>Segment\<close> was constructed, the dictionary is empty and
  \<open>graph.dot\<close> is not written, whatever the bound on the recursion.
\<close>

theorem headless_dump_fails:
  "fst (Header b) = Inr h \<and> hdr_head h = None \<longrightarrow>
     main n b = Some \<lparr>out_error = Some TypeError,
                      out_state = \<lparr>segments = [], decoded = []\<rparr>, out_dot = None\<rparr>"
  by (simp add: main_def)

theorem headless_dump_fails_witness:
  "fst (Header [0x1C, 0x53, 0x4F, 0x00, 0x01, 0x00, 0x00, 0x00, 0x00, 0x00, 0x00, 0x00,
                0x00, 0x00, 0x00, 0x00, 0x10, 0x00, 0x00, 0x00])
     = Inr \<lparr>hdr_epoch = 1, hdr_graph_id = None, hdr_head = None, hdr_stored_bytes = 16\<rparr>
   \<and> main 0 [0x1C, 0x53, 0x4F, 0x00, 0x01, 0x00, 0x00, 0x00, 0x00, 0x00, 0x00, 0x00,
             0x00, 0x00, 0x00, 0x00, 0x10, 0x00, 0x00, 0x00]
     = Some \<lparr>out_error = Some TypeError,
             out_state = \<lparr>segments = [], decoded = []\<rparr>, out_dot = None\<rparr>"
proof -
  let ?b = "[0x1C, 0x53, 0x4F, 0x00, 0x01, 0x00, 0x00, 0x00, 0x00, 0x00, 0x00, 0x00,
             0x00, 0x00, 0x00, 0x00, 0x10, 0x00, 0x00, 0x00] :: byte list"
  have h: "fst (Header ?b)
     = Inr \<lparr>hdr_epoch = 1, hdr_graph_id = None, hdr_head = None, hdr_stored_bytes = 16\<rparr>"
    by (simp add: Header_def STORAGE_HEADER_MAGIC_def cursor_eval get_u32_def align_def unpack_le_def)
  show ?thesis
    using h headless_dump_fails [where b = ?b and n = 0
        and h = "\<lparr>hdr_epoch = 1, hdr_graph_id = None, hdr_head = None, hdr_stored_bytes = 16\<rparr>"]
    by simp
qed

section \<open>The walk\<close>

lemma update_fresh: "k \<notin> fst ` set xs \<Longrightarrow> AList.update k v xs = xs @ [(k, v)]"
  by (induction xs) auto

lemma walk_growsI:
  assumes "segments s' = segments s @ new" "decoded s' = decoded s @ map fst new"
    "distinct (map fst (segments s'))"
    "\<And>k seg. (k, seg) \<in> set new \<Longrightarrow> Segment b k = Inr seg"
    "\<And>k seg. (k, seg) \<in> set new \<Longrightarrow> fst ` set (seg_prior seg) \<subseteq> fst ` set (segments s')"
    "\<And>k seg. (k, seg) \<in> set new \<Longrightarrow> \<exists>r \<in> roots. (r, k) \<in> (prior_edge b)\<^sup>*"
    "roots \<subseteq> fst ` set (segments s')"
  shows "walk_grows b roots s s'"
  unfolding walk_grows_def using assms by blast

lemma walk_grows_refl:
  "distinct (map fst (segments s)) \<Longrightarrow> roots \<subseteq> fst ` set (segments s) \<Longrightarrow> walk_grows b roots s s"
  by (rule walk_growsI [where new = "[]"]) simp_all

lemma walk_grows_distinct: "walk_grows b roots s s' \<Longrightarrow> distinct (map fst (segments s'))"
  unfolding walk_grows_def by blast

lemma walk_grows_trans:
  assumes "walk_grows b R1 s s1" "walk_grows b R2 s1 s2"
  shows "walk_grows b (R1 \<union> R2) s s2"
proof -
  from assms(1) obtain n1 where 1: "segments s1 = segments s @ n1" "decoded s1 = decoded s @ map fst n1"
    and all1: "\<forall>k seg. (k, seg) \<in> set n1 \<longrightarrow>
              Segment b k = Inr seg
              \<and> fst ` set (seg_prior seg) \<subseteq> fst ` set (segments s1)
              \<and> (\<exists>r \<in> R1. (r, k) \<in> (prior_edge b)\<^sup>*)"
    and r1: "R1 \<subseteq> fst ` set (segments s1)"
    unfolding walk_grows_def by blast
  note a1 = all1 [rule_format, THEN conjunct1]
  note b1 = all1 [rule_format, THEN conjunct2, THEN conjunct1]
  note c1 = all1 [rule_format, THEN conjunct2, THEN conjunct2]
  from assms(2) obtain n2 where 2: "segments s2 = segments s1 @ n2" "decoded s2 = decoded s1 @ map fst n2"
    "distinct (map fst (segments s2))"
    and all2: "\<forall>k seg. (k, seg) \<in> set n2 \<longrightarrow>
              Segment b k = Inr seg
              \<and> fst ` set (seg_prior seg) \<subseteq> fst ` set (segments s2)
              \<and> (\<exists>r \<in> R2. (r, k) \<in> (prior_edge b)\<^sup>*)"
    and r2: "R2 \<subseteq> fst ` set (segments s2)"
    unfolding walk_grows_def by blast
  note a2 = all2 [rule_format, THEN conjunct1]
  note b2 = all2 [rule_format, THEN conjunct2, THEN conjunct1]
  note c2 = all2 [rule_format, THEN conjunct2, THEN conjunct2]
  have sub: "fst ` set (segments s1) \<subseteq> fst ` set (segments s2)" using 2(1) by auto
  show ?thesis
  proof (rule walk_growsI [where new = "n1 @ n2"])
    show "segments s2 = segments s @ n1 @ n2" using 1(1) 2(1) by simp
    show "decoded s2 = decoded s @ map fst (n1 @ n2)" using 1(2) 2(2) by simp
    show "distinct (map fst (segments s2))" by (rule 2(3))
    show "R1 \<union> R2 \<subseteq> fst ` set (segments s2)" using r1 r2 sub by blast
  next
    fix k seg assume m: "(k, seg) \<in> set (n1 @ n2)"
    then have m': "(k, seg) \<in> set n1 \<or> (k, seg) \<in> set n2" by simp
    from m' a1 a2 show "Segment b k = Inr seg" by blast
    show "fst ` set (seg_prior seg) \<subseteq> fst ` set (segments s2)"
    proof (cases "(k, seg) \<in> set n1")
      case True
      from b1 [OF True] sub show ?thesis by (rule subset_trans)
    next
      case False
      with m' have "(k, seg) \<in> set n2" by simp
      then show ?thesis by (rule b2)
    qed
    show "\<exists>r \<in> R1 \<union> R2. (r, k) \<in> (prior_edge b)\<^sup>*"
    proof (cases "(k, seg) \<in> set n1")
      case True
      from c1 [OF True] show ?thesis by blast
    next
      case False
      with m' have "(k, seg) \<in> set n2" by simp
      from c2 [OF this] show ?thesis by blast
    qed
  qed
qed

lemma for_each_grows:
  assumes step: "\<And>p s s'. walk p s = Some (Inr (), s') \<Longrightarrow> distinct (map fst (segments s)) \<Longrightarrow>
                   walk_grows b {fst p} s s'"
  shows "for_each walk ps s = Some (Inr (), s') \<Longrightarrow> distinct (map fst (segments s)) \<Longrightarrow>
         walk_grows b (fst ` set ps) s s'"
proof (induction ps arbitrary: s)
  case Nil
  then show ?case by (simp add: walk_grows_refl)
next
  case (Cons p ps)
  from Cons.prems(1) obtain s1 where w: "walk p s = Some (Inr (), s1)"
    and f: "for_each walk ps s1 = Some (Inr (), s')"
    by (auto split: option.splits prod.splits sum.splits)
  from step [OF w Cons.prems(2)] have g1: "walk_grows b {fst p} s s1" .
  from Cons.IH [OF f walk_grows_distinct [OF g1]] have g2: "walk_grows b (fst ` set ps) s1 s'" .
  from walk_grows_trans [OF g1 g2] show ?case by simp
qed

lemma walk_segment_tree_grows:
  "walk_segment_tree n b offset s = Some (Inr (), s') \<Longrightarrow> distinct (map fst (segments s)) \<Longrightarrow>
   walk_grows b {offset} s s'"
proof (induction n arbitrary: offset s s')
  case 0
  then show ?case by simp
next
  case (Suc n)
  show ?case
  proof (cases "offset \<in> fst ` set (segments s)")
    case True
    with Suc.prems show ?thesis by (simp add: walk_grows_refl)
  next
    case False
    with Suc.prems(1) obtain seg where sg: "Segment b offset = Inr seg"
      and f: "for_each (\<lambda>p. walk_segment_tree n b (fst p)) (seg_prior seg)
                (s\<lparr>segments := AList.update offset seg (segments s),
                   decoded := decoded s @ [offset]\<rparr>) = Some (Inr (), s')"
      by (auto split: sum.splits)
    let ?s1 = "s\<lparr>segments := AList.update offset seg (segments s), decoded := decoded s @ [offset]\<rparr>"
    have s1: "segments ?s1 = segments s @ [(offset, seg)]" using False by (simp add: update_fresh)
    have d1: "distinct (map fst (segments ?s1))" using False Suc.prems(2) unfolding s1 by auto
    have g: "walk_grows b (fst ` set (seg_prior seg)) ?s1 s'"
      by (rule for_each_grows [where walk = "\<lambda>p. walk_segment_tree n b (fst p)", OF _ f d1])
         (rule Suc.IH)
    then obtain new where n: "segments s' = segments ?s1 @ new" "decoded s' = decoded ?s1 @ map fst new"
      "distinct (map fst (segments s'))"
      and alln: "\<forall>k sg. (k, sg) \<in> set new \<longrightarrow>
              Segment b k = Inr sg
              \<and> fst ` set (seg_prior sg) \<subseteq> fst ` set (segments s')
              \<and> (\<exists>r \<in> fst ` set (seg_prior seg). (r, k) \<in> (prior_edge b)\<^sup>*)"
      and r: "fst ` set (seg_prior seg) \<subseteq> fst ` set (segments s')"
      unfolding walk_grows_def by blast
    note a = alln [rule_format, THEN conjunct1]
    note c = alln [rule_format, THEN conjunct2, THEN conjunct1]
    note t = alln [rule_format, THEN conjunct2, THEN conjunct2]
    have e: "\<And>r. r \<in> fst ` set (seg_prior seg) \<Longrightarrow> (offset, r) \<in> prior_edge b"
      using sg by (simp add: prior_edge_def)
    show ?thesis
    proof (rule walk_growsI [where new = "(offset, seg) # new"])
      show "segments s' = segments s @ (offset, seg) # new" using n(1) s1 by simp
      show "decoded s' = decoded s @ map fst ((offset, seg) # new)" using n(2) by simp
      show "distinct (map fst (segments s'))" by (rule n(3))
      show "{offset} \<subseteq> fst ` set (segments s')" using n(1) s1 by simp
    next
      fix k sg assume m: "(k, sg) \<in> set ((offset, seg) # new)"
      then have m': "(k = offset \<and> sg = seg) \<or> (k, sg) \<in> set new" by auto
      from m' sg a show "Segment b k = Inr sg" by blast
      show "fst ` set (seg_prior sg) \<subseteq> fst ` set (segments s')"
      proof (cases "(k, sg) \<in> set new")
        case True
        then show ?thesis by (rule c)
      next
        case False
        with m' have "sg = seg" by simp
        with r show ?thesis by simp
      qed
      show "\<exists>r \<in> {offset}. (r, k) \<in> (prior_edge b)\<^sup>*"
      proof (cases "k = offset")
        case True
        then show ?thesis by simp
      next
        case False
        with m' have "(k, sg) \<in> set new" by simp
        from t [OF this] obtain r where "r \<in> fst ` set (seg_prior seg)" "(r, k) \<in> (prior_edge b)\<^sup>*"
          by blast
        with e [of r] have "(offset, k) \<in> (prior_edge b)\<^sup>*"
          by (simp add: converse_rtrancl_into_rtrancl)
        then show ?thesis by simp
      qed
    qed
  qed
qed


lemma decode_data_offset: "decode_data off sz data = Inr seg \<Longrightarrow> seg_offset seg = off"
  by (cases "fst (payload_fields (Cursor data False))")
     (auto simp: decode_data_fields split: prod.splits)

lemma Segment_offset: "Segment b k = Inr seg \<Longrightarrow> seg_offset seg = k"
proof -
  assume "Segment b k = Inr seg"
  then obtain sz data where "decode_data k sz data = Inr seg"
    by (auto simp: Segment_def Segment_read_def split: if_splits sum.splits)
  then show ?thesis by (rule decode_data_offset)
qed

lemma dot_nodes_append: "dot_nodes (xs @ ys) = dot_nodes xs @ dot_nodes ys"
  by (induction xs rule: dot_nodes.induct) simp_all

lemma dot_edges_append: "dot_edges (xs @ ys) = dot_edges xs @ dot_edges ys"
  by (induction xs rule: dot_edges.induct) simp_all

lemma dot_nodes_edges: "dot_nodes (map (\<lambda>p. Edge_line k (f p)) ps) = []"
  by (induction ps) simp_all

lemma dot_edges_edges: "dot_edges (map (\<lambda>p. Edge_line k (f p)) ps) = map (\<lambda>p. (k, f p)) ps"
  by (induction ps) simp_all

lemma dot_nodes_segment_lines: "dot_nodes (segment_lines s) = [seg_offset s]"
  by (simp add: segment_lines_def dot_nodes_edges)

lemma dot_edges_segment_lines:
  "dot_edges (segment_lines s) = map (\<lambda>p. (seg_offset s, fst p)) (seg_prior s)"
  by (simp add: segment_lines_def dot_edges_edges)

lemma dot_nodes_graph: "dot_nodes (graph_dot segs) = map (\<lambda>(k, s). seg_offset s) segs"
proof -
  have "dot_nodes (concat (map (\<lambda>(k, s). segment_lines s) segs)) = map (\<lambda>(k, s). seg_offset s) segs"
    by (induction segs) (auto simp: dot_nodes_append dot_nodes_segment_lines)
  then show ?thesis by (simp add: graph_dot_def dot_nodes_append)
qed

lemma dot_edges_graph:
  "dot_edges (graph_dot segs)
     = concat (map (\<lambda>(k, s). map (\<lambda>p. (seg_offset s, fst p)) (seg_prior s)) segs)"
proof -
  have "dot_edges (concat (map (\<lambda>(k, s). segment_lines s) segs))
     = concat (map (\<lambda>(k, s). map (\<lambda>p. (seg_offset s, fst p)) (seg_prior s)) segs)"
    by (induction segs) (auto simp: dot_edges_append dot_edges_segment_lines)
  then show ?thesis by (simp add: graph_dot_def dot_edges_append)
qed

lemma graph_dot_parents:
  "graph_dot (map (\<lambda>(k, s). (k, s\<lparr>seg_parents := ps k s\<rparr>)) segs) = graph_dot segs"
  by (simp add: graph_dot_def segment_lines_def comp_def case_prod_unfold)


lemma closed_reachable:
  assumes h: "head \<in> K"
    and cl: "\<And>x y. x \<in> K \<Longrightarrow> (x, y) \<in> prior_edge b \<Longrightarrow> y \<in> K"
  shows "reachable b head \<subseteq> K"
proof
  fix y assume "y \<in> reachable b head"
  then have "(head, y) \<in> (prior_edge b)\<^sup>*" by (simp add: reachable_def)
  then show "y \<in> K"
    by (induction rule: rtrancl_induct) (auto intro: h cl)
qed

text \<open>
  Claim C4. When the walk from the head returns, the keys of \<open>segments\<close> are exactly the
  offsets reachable from the head by prior references, each once; \<open>Segment\<close> was called
  once for each of them and for no other offset, and the dictionary holds what it
  returned. The exported graph has one node for each entry of the dictionary and, for each
  entry, one edge to the first component of each entry of its prior list, in order; the
  parents of the segments have no part in it.
\<close>

theorem walk_segment_tree_reachable:
  assumes "walk_segment_tree n b head \<lparr>segments = [], decoded = []\<rparr> = Some (Inr (), s)"
  shows "fst ` set (segments s) = reachable b head
       \<and> distinct (map fst (segments s))
       \<and> decoded s = map fst (segments s) \<and> distinct (decoded s)
       \<and> (\<forall>k seg. (k, seg) \<in> set (segments s) \<longrightarrow> Segment b k = Inr seg)
       \<and> dot_nodes (graph_dot (segments s)) = map fst (segments s)
       \<and> dot_edges (graph_dot (segments s))
           = concat (map (\<lambda>(k, seg). map (\<lambda>p. (k, fst p)) (seg_prior seg)) (segments s))
       \<and> graph_dot (map (\<lambda>(k, seg). (k, seg\<lparr>seg_parents := ps k seg\<rparr>)) (segments s))
           = graph_dot (segments s)"
proof -
  have "walk_grows b {head} \<lparr>segments = [], decoded = []\<rparr> s"
    by (rule walk_segment_tree_grows [OF assms]) simp
  then have sg: "decoded s = map fst (segments s)"
    and di: "distinct (map fst (segments s))"
    and al: "\<forall>k seg. (k, seg) \<in> set (segments s) \<longrightarrow>
              Segment b k = Inr seg
              \<and> fst ` set (seg_prior seg) \<subseteq> fst ` set (segments s)
              \<and> (\<exists>r \<in> {head}. (r, k) \<in> (prior_edge b)\<^sup>*)"
    and hd: "head \<in> fst ` set (segments s)"
    unfolding walk_grows_def by auto
  note dec = al [rule_format, THEN conjunct1]
  note clo = al [rule_format, THEN conjunct2, THEN conjunct1]
  note rea = al [rule_format, THEN conjunct2, THEN conjunct2]
  have sub1: "fst ` set (segments s) \<subseteq> reachable b head"
  proof
    fix k assume "k \<in> fst ` set (segments s)"
    then obtain seg where "(k, seg) \<in> set (segments s)" by auto
    from rea [OF this] show "k \<in> reachable b head" by (simp add: reachable_def)
  qed
  have sub2: "reachable b head \<subseteq> fst ` set (segments s)"
  proof (rule closed_reachable [OF hd])
    fix x y assume x: "x \<in> fst ` set (segments s)" and e: "(x, y) \<in> prior_edge b"
    from x obtain seg where m: "(x, seg) \<in> set (segments s)" by auto
    from dec [OF m] e have "y \<in> fst ` set (seg_prior seg)" by (simp add: prior_edge_def)
    with clo [OF m] show "y \<in> fst ` set (segments s)" by blast
  qed
  have off: "\<And>k seg. (k, seg) \<in> set (segments s) \<Longrightarrow> seg_offset seg = k"
    using dec by (blast dest: Segment_offset)
  have nodes: "map (\<lambda>(k, s). seg_offset s) (segments s) = map fst (segments s)"
    using off by (auto intro!: map_cong)
  have edges: "map (\<lambda>(k, s). map (\<lambda>p. (seg_offset s, fst p)) (seg_prior s)) (segments s)
      = map (\<lambda>(k, seg). map (\<lambda>p. (k, fst p)) (seg_prior seg)) (segments s)"
    using off by (auto intro!: map_cong)
  from sub1 sub2 have "fst ` set (segments s) = reachable b head" by (rule equalityI)
  moreover have "distinct (decoded s)" using sg di by simp
  moreover have "dot_nodes (graph_dot (segments s)) = map fst (segments s)"
    by (simp only: dot_nodes_graph nodes)
  moreover have "dot_edges (graph_dot (segments s))
           = concat (map (\<lambda>(k, seg). map (\<lambda>p. (k, fst p)) (seg_prior seg)) (segments s))"
    by (simp only: dot_edges_graph edges)
  moreover note di sg graph_dot_parents [of ps "segments s"]
  moreover have "\<forall>k seg. (k, seg) \<in> set (segments s) \<longrightarrow> Segment b k = Inr seg"
    using dec by blast
  ultimately show ?thesis by (intro conjI)
qed

text \<open>The walk on the example dump.\<close>

lemma walk_segment_tree_numeral:
  "walk_segment_tree (numeral k) b offset s =
     (if offset \<in> fst ` set (segments s) then Some (Inr (), s)
      else case Segment b offset of
             Inl e \<Rightarrow> Some (Inl e, s\<lparr>decoded := decoded s @ [offset]\<rparr>)
           | Inr seg \<Rightarrow>
               for_each (\<lambda>p. walk_segment_tree (pred_numeral k) b (fst p)) (seg_prior seg)
                 (s\<lparr>segments := AList.update offset seg (segments s),
                    decoded := decoded s @ [offset]\<rparr>))"
  by (simp add: numeral_eq_Suc)

lemma diamond_0:
  "Segment diamond_dump 0
     = Inr \<lparr>seg_offset = 0, seg_size = 39, seg_data = replicate 39 0, seg_prior = [],
            seg_parents = [], seg_policy = replicate 32 0, seg_facts = 0,
            seg_type = Some ''init''\<rparr>"
  by (simp add: diamond_dump_def Segment_def segment_eval cursor_eval nth_append)

lemma diamond_100:
  "Segment diamond_dump 100
     = Inr \<lparr>seg_offset = 100, seg_size = 41,
            seg_data = [0x00, 0x01, 0x00, 0x00, 0x00] @ replicate 36 0, seg_prior = [(0, 0)],
            seg_parents = [], seg_policy = replicate 32 0, seg_facts = 0,
            seg_type = Some ''init''\<rparr>"
  by (simp add: diamond_dump_def Segment_def segment_eval cursor_eval nth_append)

lemma diamond_200:
  "Segment diamond_dump 200
     = Inr \<lparr>seg_offset = 200, seg_size = 41,
            seg_data = [0x00, 0x01, 0x00, 0x00, 0x00] @ replicate 36 0, seg_prior = [(0, 0)],
            seg_parents = [], seg_policy = replicate 32 0, seg_facts = 0,
            seg_type = Some ''init''\<rparr>"
  by (simp add: diamond_dump_def Segment_def segment_eval cursor_eval nth_append)

lemma diamond_300:
  "Segment diamond_dump 300
     = Inr \<lparr>seg_offset = 300, seg_size = 110,
            seg_data = [0x00, 0x02, 0x64, 0x00, 0xC8, 0x01, 0x00, 0x02]
              @ replicate 32 0x11 @ [0x01] @ replicate 32 0x22 @ [0x02] @ replicate 36 0,
            seg_prior = [(100, 0), (200, 0)],
            seg_parents = [(replicate 32 0x11, 1), (replicate 32 0x22, 2)],
            seg_policy = replicate 32 0, seg_facts = 0, seg_type = Some ''merge''\<rparr>"
  by (simp add: diamond_dump_def Segment_def segment_eval cursor_eval nth_append for_range_numeral)


theorem walk_segment_tree_reachable_witness:
  "(case walk_segment_tree 3 diamond_dump 300 \<lparr>segments = [], decoded = []\<rparr> of
      Some (Inr u, s) \<Rightarrow>
        map fst (segments s) = [300, 100, 0, 200] \<and> decoded s = [300, 100, 0, 200]
        \<and> graph_dot (segments s)
            = [Digraph_open, Node_line 300, Edge_line 300 100, Edge_line 300 200,
               Node_line 100, Edge_line 100 0, Node_line 0, Node_line 200, Edge_line 200 0,
               Digraph_close]
    | _ \<Rightarrow> False)
   \<and> reachable diamond_dump 300 = {300, 100, 0, 200}"
proof -
  let ?s0 = "\<lparr>seg_offset = 0, seg_size = 39, seg_data = replicate 39 0, seg_prior = [],
            seg_parents = [], seg_policy = replicate 32 0, seg_facts = 0,
            seg_type = Some ''init''\<rparr>"
  let ?s100 = "\<lparr>seg_offset = 100, seg_size = 41,
            seg_data = [0x00, 0x01, 0x00, 0x00, 0x00] @ replicate 36 0, seg_prior = [(0, 0)],
            seg_parents = [], seg_policy = replicate 32 0, seg_facts = 0,
            seg_type = Some ''init''\<rparr>"
  let ?s200 = "\<lparr>seg_offset = 200, seg_size = 41,
            seg_data = [0x00, 0x01, 0x00, 0x00, 0x00] @ replicate 36 0, seg_prior = [(0, 0)],
            seg_parents = [], seg_policy = replicate 32 0, seg_facts = 0,
            seg_type = Some ''init''\<rparr>"
  let ?s300 = "\<lparr>seg_offset = 300, seg_size = 110,
            seg_data = [0x00, 0x02, 0x64, 0x00, 0xC8, 0x01, 0x00, 0x02]
              @ replicate 32 0x11 @ [0x01] @ replicate 32 0x22 @ [0x02] @ replicate 36 0,
            seg_prior = [(100, 0), (200, 0)],
            seg_parents = [(replicate 32 0x11, 1), (replicate 32 0x22, 2)],
            seg_policy = replicate 32 0, seg_facts = 0, seg_type = Some ''merge''\<rparr>"
  let ?s = "\<lparr>segments = [(300, ?s300), (100, ?s100), (0, ?s0), (200, ?s200)],
            decoded = [300, 100, 0, 200]\<rparr>"
  have w: "walk_segment_tree 3 diamond_dump 300 \<lparr>segments = [], decoded = []\<rparr> = Some (Inr (), ?s)"
    by (simp add: walk_segment_tree_numeral diamond_0 diamond_100 diamond_200 diamond_300)
  from walk_segment_tree_reachable [OF w]
  have "fst ` set (segments ?s) = reachable diamond_dump 300" by (rule conjunct1)
  then have "reachable diamond_dump 300 = fst ` set (segments ?s)" by (rule sym)
  then have r: "reachable diamond_dump 300 = {300, 100, 0, 200}" by simp
  have g: "graph_dot (segments ?s)
            = [Digraph_open, Node_line 300, Edge_line 300 100, Edge_line 300 200,
               Node_line 100, Edge_line 100 0, Node_line 0, Node_line 200, Edge_line 200 0,
               Digraph_close]"
    by (simp add: graph_dot_def segment_lines_def)
  show ?thesis unfolding w using r g by simp
qed

text \<open>
  The walk always returns when the bound is large enough: a segment decodes only at an
  offset inside the dump, and each call that decodes one adds a new key to \<open>segments\<close>,
  so the recursion is never deeper than the dump is long.
\<close>

lemma Segment_in_buffer: "Segment b k = Inr seg \<Longrightarrow> k < length b"
proof -
  assume "Segment b k = Inr seg"
  then have "take 4 (drop (k + DATA_OFFSET) b) = SEGMENT_HEADER_MAGIC"
    by (auto simp: Segment_def Segment_read_def split: if_splits)
  then have "length (take 4 (drop (k + DATA_OFFSET) b)) = 4"
    by (simp add: SEGMENT_HEADER_MAGIC_def)
  then show ?thesis by (simp add: DATA_OFFSET_def)
qed

lemma unvisited_mono:
  "fst ` set (segments s) \<subseteq> fst ` set (segments s') \<Longrightarrow> unvisited b s' \<le> unvisited b s"
  unfolding unvisited_def by (rule card_mono) auto

lemma unvisited_insert:
  assumes "k < length b" "k \<notin> fst ` set (segments s)"
  shows "unvisited b (s\<lparr>segments := AList.update k seg (segments s), decoded := d\<rparr>) < unvisited b s"
proof -
  have "{..<length b} - fst ` set (segments s @ [(k, seg)]) \<subset> {..<length b} - fst ` set (segments s)"
    using assms by auto
  then show ?thesis
    unfolding unvisited_def using assms(2) by (simp add: update_fresh psubset_card_mono)
qed

lemma for_each_returns:
  assumes step: "\<And>p s. unvisited b s < n \<Longrightarrow>
      \<exists>r s'. walk p s = Some (r, s') \<and> fst ` set (segments s) \<subseteq> fst ` set (segments s')"
  shows "unvisited b s < n \<Longrightarrow>
      \<exists>r s'. for_each walk ps s = Some (r, s') \<and> fst ` set (segments s) \<subseteq> fst ` set (segments s')"
proof (induction ps arbitrary: s)
  case Nil
  then show ?case by simp
next
  case (Cons p ps)
  from step [OF Cons.prems] obtain r s1 where w: "walk p s = Some (r, s1)"
    and m: "fst ` set (segments s) \<subseteq> fst ` set (segments s1)" by blast
  show ?case
  proof (cases r)
    case (Inl e)
    with w m show ?thesis by simp
  next
    case (Inr u)
    from unvisited_mono [OF m, of b] Cons.prems have "unvisited b s1 < n" by simp
    from Cons.IH [OF this] obtain r' s' where "for_each walk ps s1 = Some (r', s')"
      and "fst ` set (segments s1) \<subseteq> fst ` set (segments s')" by blast
    with w m Inr show ?thesis by auto
  qed
qed

lemma walk_segment_tree_returns_mono:
  "unvisited b s < n \<Longrightarrow>
   \<exists>r s'. walk_segment_tree n b offset s = Some (r, s')
          \<and> fst ` set (segments s) \<subseteq> fst ` set (segments s')"
proof (induction n arbitrary: offset s)
  case 0
  then show ?case by simp
next
  case (Suc n)
  show ?case
  proof (cases "offset \<in> fst ` set (segments s)")
    case True
    then show ?thesis by simp
  next
    case False
    show ?thesis
    proof (cases "Segment b offset")
      case (Inl e)
      with False show ?thesis by simp
    next
      case (Inr seg)
      let ?s1 = "s\<lparr>segments := AList.update offset seg (segments s), decoded := decoded s @ [offset]\<rparr>"
      from unvisited_insert [OF Segment_in_buffer [OF Inr] False, where seg = seg
          and d = "decoded s @ [offset]"] Suc.prems
      have u: "unvisited b ?s1 < n" by linarith
      have "\<exists>r s'. for_each (\<lambda>p. walk_segment_tree n b (fst p)) (seg_prior seg) ?s1 = Some (r, s')
            \<and> fst ` set (segments ?s1) \<subseteq> fst ` set (segments s')"
        by (rule for_each_returns [where walk = "\<lambda>p. walk_segment_tree n b (fst p)", OF _ u])
           (rule Suc.IH)
      then obtain r s' where f: "for_each (\<lambda>p. walk_segment_tree n b (fst p)) (seg_prior seg) ?s1 = Some (r, s')"
        and m: "fst ` set (segments ?s1) \<subseteq> fst ` set (segments s')" by blast
      have "fst ` set (segments s) \<subseteq> fst ` set (segments ?s1)" using False by (auto simp: update_fresh)
      with m have "fst ` set (segments s) \<subseteq> fst ` set (segments s')" by blast
      with f False Inr show ?thesis by simp
    qed
  qed
qed

theorem walk_segment_tree_returns:
  "walk_segment_tree (Suc (length b)) b head s \<noteq> None"
proof -
  have "unvisited b s \<le> card {..<length b}"
    unfolding unvisited_def by (rule card_mono) auto
  then have "unvisited b s < Suc (length b)" by simp
  from walk_segment_tree_returns_mono [OF this, of head] show ?thesis by auto
qed

text \<open>
  The offsets the export formats are keys of \<open>segments\<close>, and a key is an offset inside
  the dump: unless the dump is longer than a number of 4300 digits, which no byte string
  is, every line can be written and the script exports the whole graph.
\<close>

lemma walk_lines_fit:
  assumes w: "walk_segment_tree n b head \<lparr>segments = [], decoded = ds\<rparr> = Some (Inr (), s)"
    and len: "length b \<le> 10 ^ int_max_str_digits"
  shows "list_all dot_line_fits (graph_dot (segments s))"
proof -
  have "walk_grows b {head} \<lparr>segments = [], decoded = ds\<rparr> s"
    by (rule walk_segment_tree_grows [OF w]) simp
  then have al: "\<forall>k seg. (k, seg) \<in> set (segments s) \<longrightarrow>
              Segment b k = Inr seg
              \<and> fst ` set (seg_prior seg) \<subseteq> fst ` set (segments s)
              \<and> (\<exists>r \<in> {head}. (r, k) \<in> (prior_edge b)\<^sup>*)"
    unfolding walk_grows_def by auto
  note dec = al [rule_format, THEN conjunct1]
  note clo = al [rule_format, THEN conjunct2, THEN conjunct1]
  have key: "\<And>k. k \<in> fst ` set (segments s) \<Longrightarrow> int_str_fits k"
  proof -
    fix k assume "k \<in> fst ` set (segments s)"
    then obtain seg where "(k, seg) \<in> set (segments s)" by auto
    from Segment_in_buffer [OF dec [OF this]] len show "int_str_fits k"
      unfolding int_str_fits_def by (rule less_le_trans)
  qed
  have seg: "\<And>k sg. (k, sg) \<in> set (segments s) \<Longrightarrow> list_all dot_line_fits (segment_lines sg)"
  proof -
    fix k sg assume m: "(k, sg) \<in> set (segments s)"
    from Segment_offset [OF dec [OF m]] have o: "seg_offset sg = k" .
    from m have k: "int_str_fits k" by (intro key) force
    have "\<And>p. p \<in> set (seg_prior sg) \<Longrightarrow> int_str_fits (fst p)"
      using clo [OF m] by (intro key) blast
    then show "list_all dot_line_fits (segment_lines sg)"
      using k by (simp add: segment_lines_def o list_all_iff)
  qed
  have "list_all dot_line_fits (concat (map (\<lambda>(k, s). segment_lines s) (segments s)))"
    using seg by (auto simp: list_all_iff)
  then show ?thesis by (simp add: graph_dot_def)
qed

section \<open>Decoding what the standard encoder emits\<close>

lemma byte_low7: "unat ((x::byte) AND 0x7F) = unat x mod 128"
proof -
  have m: "(0x7F::byte) = mask 7" by (simp add: mask_eq_exp_minus_1)
  have "unat (x AND mask 7) = unat (take_bit 7 x)" by (simp only: take_bit_eq_mask)
  also have "\<dots> = take_bit 7 (unat x)" by (simp add: unsigned_take_bit_eq)
  also have "\<dots> = unat x mod 128" by (simp add: take_bit_eq_mod)
  finally show ?thesis by (simp only: m)
qed

lemma byte_high_bit: "((x::byte) AND 0x80 = 0) \<longleftrightarrow> unat x < 128"
proof
  assume "x AND 0x80 = 0"
  then have "x AND 0x7F = x" by (rule byte_and_7F)
  then have "unat x = unat (x AND 0x7F)" by simp
  then show "unat x < 128" using byte_and_7F_less [of x] by simp
next
  assume a: "unat x < 128"
  have e: "(0x80::byte) = 2 ^ 7" by simp
  have "\<not> bit (unat x) 7" using a by (simp add: bit_iff_odd)
  then have "\<not> bit x 7" by (simp add: bit_unsigned_iff)
  then have "x AND 2 ^ 7 = 0"
    by (intro bit_word_eqI, simp only: bit_and_iff bit_exp_iff) auto
  then show "x AND 0x80 = 0" by (simp only: e)
qed


lemma unat_of_nat_byte: "k < 256 \<Longrightarrow> unat (of_nat k :: byte) = k"
  by (simp add: unat_of_nat)

lemma leb_encode_valid: "leb_valid (leb_encode n)"
proof (induction n rule: leb_encode.induct)
  case (1 n)
  show ?case
  proof (cases "n < 128")
    case True
    then show ?thesis by (simp add: leb_encode.simps [of n] byte_high_bit unat_of_nat_byte)
  next
    case False
    from 1 [OF False] have v: "leb_valid (leb_encode (n div 128))" .
    then obtain y ys where e: "leb_encode (n div 128) = y # ys" by (cases "leb_encode (n div 128)") auto
    have "unat (of_nat (128 + n mod 128) :: byte) = 128 + n mod 128"
      by (rule unat_of_nat_byte) simp
    then have "(of_nat (128 + n mod 128) :: byte) AND 0x80 \<noteq> 0" by (simp add: byte_high_bit)
    with v e False show ?thesis by (simp add: leb_encode.simps [of n])
  qed
qed

lemma leb_encode_value: "leb_value (leb_encode n) = n"
proof (induction n rule: leb_encode.induct)
  case (1 n)
  show ?case
  proof (cases "n < 128")
    case True
    then show ?thesis by (simp add: leb_encode.simps [of n] byte_low7 unat_of_nat_byte)
  next
    case False
    have "unat (of_nat (128 + n mod 128) :: byte) = 128 + n mod 128"
      by (rule unat_of_nat_byte) simp
    then have "unat ((of_nat (128 + n mod 128) :: byte) AND 0x7F) = n mod 128"
      by (simp add: byte_low7)
    with 1 [OF False] False show ?thesis by (simp add: leb_encode.simps [of n])
  qed
qed

text \<open>
  Wherever the encoding of \<open>n\<close> stands in the buffer, \<open>get_leb\<close> at its first byte
  returns \<open>n\<close> and leaves the cursor behind its last byte.
\<close>

theorem get_leb_leb_encode:
  "get_leb \<lparr>cur_b = pre @ leb_encode n @ rest, cur_c = length pre, cur_rkyv = r\<rparr>
     = (Inr n, \<lparr>cur_b = pre @ leb_encode n @ rest, cur_c = length pre + length (leb_encode n),
                cur_rkyv = r\<rparr>)"
  using get_leb_valid [OF leb_encode_valid [of n],
      of "\<lparr>cur_b = pre @ leb_encode n @ rest, cur_c = length pre, cur_rkyv = r\<rparr>"]
  by (simp add: peek_bytes_def leb_encode_value)

end
